theory Spec2Isabelle
  imports Main "HOL-Library.Word"
begin

unbundle bit_operations_syntax

section \<open>Audio capture: voice activity detection and segmentation\<close>

text \<open>
  The capture goroutine \<^verbatim>\<open>SpeechService.captureAudio\<close> of package \<^verbatim>\<open>speech\<close>,
  together with the fields of \<^verbatim>\<open>SpeechService\<close> it reads and writes. Samples are
  Go \<^verbatim>\<open>int16\<close> values, the bytes handed over by \<^verbatim>\<open>sdl.DequeueAudio\<close> are
  \<^verbatim>\<open>uint8\<close> values.
\<close>

type_synonym int16 = "16 word"
type_synonym byte = "8 word"

definition AudioFrequency :: nat where
  "AudioFrequency = 16000"

definition AudioSamples :: nat where
  "AudioSamples = 4096"

definition VadThreshold :: int where
  "VadThreshold = 100"

definition VadSilenceFrames :: nat where
  "VadSilenceFrames = 10"

record AudioData =
  Samples :: "int16 list"
  SampleRate :: int

subsection \<open>Buffered channels used without blocking\<close>

text \<open>
  A Go channel made by \<^verbatim>\<open>make(chan T, n)\<close>: its capacity and the values queued in it,
  oldest first. \<open>chanSend\<close> is \<^verbatim>\<open>select { case ch <- x: ... default: ... }\<close>: it
  enqueues when there is room and reports whether it did. \<open>chanRecv\<close> is the receiving
  \<^verbatim>\<open>select\<close> with a \<^verbatim>\<open>default\<close> branch.
\<close>

record 'a chan =
  cap :: nat
  buf :: "'a list"

definition makeChan :: "nat \<Rightarrow> 'a chan" where
  "makeChan n = \<lparr>cap = n, buf = []\<rparr>"

definition chanSend :: "'a chan \<Rightarrow> 'a \<Rightarrow> 'a chan \<times> bool" where
  "chanSend ch x =
     (if length (buf ch) < cap ch then (ch\<lparr>buf := buf ch @ [x]\<rparr>, True) else (ch, False))"

definition chanRecv :: "'a chan \<Rightarrow> 'a chan \<times> 'a option" where
  "chanRecv ch = (case buf ch of [] \<Rightarrow> (ch, None) | x # xs \<Rightarrow> (ch\<lparr>buf := xs\<rparr>, Some x))"

subsection \<open>The service and the state of the capture goroutine\<close>

text \<open>
  The fields of \<^verbatim>\<open>SpeechService\<close>. The \<^verbatim>\<open>callback\<close> field is never read by the
  capture loop and is left out, and so is the mutex: every critical section of the loop is
  one atomic step of the model.
\<close>

record SpeechService =
  deviceID :: nat
  isInitialized :: bool
  isListening :: bool
  isRecording :: bool
  isTranscribing :: bool
  isShutdown :: bool
  audioData :: AudioData
  recordingStarted :: "unit chan"
  recordingStopped :: "AudioData chan"
  stopListening :: "unit chan"

definition NewSpeechService :: SpeechService where
  "NewSpeechService =
     \<lparr>deviceID = 0, isInitialized = False, isListening = False, isRecording = False,
      isTranscribing = False, isShutdown = False,
      audioData = \<lparr>Samples = [], SampleRate = int AudioFrequency\<rparr>,
      recordingStarted = makeChan 1, recordingStopped = makeChan 1,
      stopListening = makeChan 1\<rparr>"

text \<open>The SDL audio subsystem as far as the service drives it.\<close>

record sdl_world =
  sdlInit :: bool
  deviceOpen :: bool
  devicePaused :: bool

text \<open>
  \<^verbatim>\<open>sdl.PauseAudioDevice\<close>, \<^verbatim>\<open>sdl.CloseAudioDevice\<close> and \<^verbatim>\<open>sdl.Quit\<close> on
  the one capture device the service opens. Pausing a device that is not open does nothing.
\<close>

definition PauseAudioDevice :: "bool \<Rightarrow> sdl_world \<Rightarrow> sdl_world" where
  "PauseAudioDevice p w = (if deviceOpen w then w\<lparr>devicePaused := p\<rparr> else w)"

definition CloseAudioDevice :: "sdl_world \<Rightarrow> sdl_world" where
  "CloseAudioDevice w = w\<lparr>deviceOpen := False\<rparr>"

definition sdlQuit :: "sdl_world \<Rightarrow> sdl_world" where
  "sdlQuit w = w\<lparr>sdlInit := False, deviceOpen := False\<rparr>"

text \<open>
  Lines written with \<^verbatim>\<open>log.Println\<close> and \<^verbatim>\<open>log.Printf\<close>. Output of
  \<^verbatim>\<open>debugLog\<close> is diagnostic only and is not recorded.
\<close>

datatype log_line =
    ErrorReadingAudio
  | EndOfSpeechDetected nat
  | ChannelFullDroppingAudio
  | RecordingTooShortDiscarded
  | AudioCaptureGoroutineExited
  | StartingSpeechServiceCleanup
  | StoppingListening
  | StoppedListening
  | SdlAudioResourcesReleased
  | SpeechServiceCleanupCompleted

datatype goroutine_status = Running | Returned | Panicked

text \<open>
  The goroutine's view: the shared service, the device, the log, the values handed to
  callers of \<^verbatim>\<open>WaitForRecording\<close>, and the locals \<^verbatim>\<open>silenceFrames\<close> and
  \<^verbatim>\<open>isRecording\<close> of \<^verbatim>\<open>captureAudio\<close>.
\<close>

record capture =
  svc :: SpeechService
  sdl :: sdl_world
  logs :: "log_line list"
  received :: "AudioData list"
  silenceFrames :: nat
  isRecordingLocal :: bool
  status :: goroutine_status

text \<open>What one call of \<^verbatim>\<open>sdl.DequeueAudio\<close> gives: an error, or the bytes read.\<close>

datatype dequeued = DequeueError | Dequeued "byte list"

text \<open>
  \<^verbatim>\<open>numSamples := bytesRead / 2\<close> and
  \<^verbatim>\<open>samples[i] = int16(buffer[i*2]) | (int16(buffer[i*2+1]) << 8)\<close>; a trailing odd
  byte is not converted.
\<close>

fun bytesToSamples :: "byte list \<Rightarrow> int16 list" where
  "bytesToSamples (lo # hi # rest) = (ucast lo OR push_bit 8 (ucast hi)) # bytesToSamples rest"
| "bytesToSamples _ = []"

text \<open>The sum of the absolute values, computed in \<^verbatim>\<open>int64\<close> (no overflow is possible
  for at most 4096 samples of 16 bits).\<close>

fun sumAbs :: "int16 list \<Rightarrow> int" where
  "sumAbs [] = 0"
| "sumAbs (s # ss) = (if sint s < 0 then - sint s else sint s) + sumAbs ss"

text \<open>The deferred function of \<^verbatim>\<open>captureAudio\<close>, run on every return.\<close>

definition captureExit :: "capture \<Rightarrow> capture" where
  "captureExit c =
     c\<lparr>svc := (svc c)\<lparr>isRecording := False, isListening := False\<rparr>,
       sdl := PauseAudioDevice True (sdl c),
       logs := logs c @ [AudioCaptureGoroutineExited],
       status := Returned\<rparr>"

text \<open>Voice detected while not recording: lines 340 to 358.\<close>

definition startRecording :: "capture \<Rightarrow> capture" where
  "startRecording c =
     c\<lparr>isRecordingLocal := True,
       svc := (svc c)\<lparr>isRecording := True,
                       audioData := (audioData (svc c))\<lparr>Samples := []\<rparr>,
                       recordingStarted := fst (chanSend (recordingStarted (svc c)) ())\<rparr>\<rparr>"

text \<open>Enough silence: lines 372 to 400.\<close>

definition endRecording :: "capture \<Rightarrow> capture" where
  "endRecording c =
     (let c1 = c\<lparr>isRecordingLocal := False, svc := (svc c)\<lparr>isRecording := False\<rparr>\<rparr>;
          c2 = (if length (Samples (audioData (svc c1))) > AudioFrequency div 4 then
                  (let copy = \<lparr>Samples = Samples (audioData (svc c1)),
                                SampleRate = SampleRate (audioData (svc c1))\<rparr>;
                       (ch, sent) = chanSend (recordingStopped (svc c1)) copy
                   in if sent
                      then c1\<lparr>svc := (svc c1)\<lparr>recordingStopped := ch\<rparr>,
                              logs := logs c1 @ [EndOfSpeechDetected (length (Samples copy))]\<rparr>
                      else c1\<lparr>logs := logs c1 @ [ChannelFullDroppingAudio]\<rparr>)
                else c1\<lparr>logs := logs c1 @ [RecordingTooShortDiscarded]\<rparr>)
      in c2\<lparr>silenceFrames := 0\<rparr>)"

text \<open>While recording: lines 360 to 403.\<close>

definition recordFrame :: "int16 list \<Rightarrow> int \<Rightarrow> capture \<Rightarrow> capture" where
  "recordFrame samples average c =
     (let c1 = c\<lparr>svc := (svc c)\<lparr>audioData :=
                 (audioData (svc c))\<lparr>Samples := Samples (audioData (svc c)) @ samples\<rparr>\<rparr>\<rparr>
      in if average > VadThreshold then c1\<lparr>silenceFrames := 0\<rparr>
         else (let c2 = c1\<lparr>silenceFrames := silenceFrames c1 + 1\<rparr>
               in if silenceFrames c2 \<ge> VadSilenceFrames then endRecording c2 else c2))"

text \<open>
  Lines 325 to 403 for one converted frame. \<^verbatim>\<open>sum / int64(len(samples))\<close> is an
  integer division: with no sample (a read of a single byte) it panics; the deferred
  function runs and the process dies.
\<close>

definition processSamples :: "int16 list \<Rightarrow> capture \<Rightarrow> capture" where
  "processSamples samples c =
     (if samples = [] then (captureExit c)\<lparr>status := Panicked\<rparr>
      else (let average = sumAbs samples div int (length samples);
                c1 = (if \<not> isRecordingLocal c \<and> average > VadThreshold
                      then startRecording c else c)
            in if isRecordingLocal c1 then recordFrame samples average c1 else c1))"

text \<open>
  One iteration of the \<^verbatim>\<open>for\<close> loop of \<^verbatim>\<open>captureAudio\<close>, given what
  \<^verbatim>\<open>DequeueAudio\<close> returns in it. A goroutine that has returned or panicked does
  nothing more.
\<close>

definition captureIter :: "dequeued \<Rightarrow> capture \<Rightarrow> capture" where
  "captureIter d c =
     (if status c \<noteq> Running then c
      else (case chanRecv (stopListening (svc c)) of
              (ch, Some u) \<Rightarrow> captureExit (c\<lparr>svc := (svc c)\<lparr>stopListening := ch\<rparr>\<rparr>)
            | (ch, None) \<Rightarrow>
                if \<not> isListening (svc c) then captureExit c
                else (case d of
                        DequeueError \<Rightarrow>
                          if \<not> isListening (svc c) then captureExit c
                          else c\<lparr>logs := logs c @ [ErrorReadingAudio]\<rparr>
                      | Dequeued bs \<Rightarrow>
                          if length bs = 0 then c
                          else processSamples (bytesToSamples bs) c)))"

text \<open>
  The consumer side: the \<^verbatim>\<open>case audioData := <-s.recordingStopped\<close> branch of the
  \<^verbatim>\<open>select\<close> in \<^verbatim>\<open>WaitForRecording\<close>, which takes the pending utterance out of
  the channel and returns it to the caller.
\<close>

definition consumerReceive :: "capture \<Rightarrow> capture" where
  "consumerReceive c =
     (case chanRecv (recordingStopped (svc c)) of
        (ch, Some a) \<Rightarrow> c\<lparr>svc := (svc c)\<lparr>recordingStopped := ch\<rparr>, received := received c @ [a]\<rparr>
      | (ch, None) \<Rightarrow> c)"

text \<open>
  The producer and the consumer run concurrently; an execution is an interleaving of loop
  iterations and receptions.
\<close>

datatype event = LoopIter dequeued | ConsumerRecv

fun step :: "event \<Rightarrow> capture \<Rightarrow> capture" where
  "step (LoopIter d) c = captureIter d c"
| "step ConsumerRecv c = consumerReceive c"

fun run :: "event list \<Rightarrow> capture \<Rightarrow> capture" where
  "run [] c = c"
| "run (e # es) c = run es (step e c)"

text \<open>The loop fed with a sequence of frames and nothing else happening.\<close>

definition feed :: "byte list list \<Rightarrow> capture \<Rightarrow> capture" where
  "feed frames c = run (map (\<lambda>bs. LoopIter (Dequeued bs)) frames) c"

text \<open>
  The start of \<^verbatim>\<open>captureAudio\<close>: the device is resumed, \<^verbatim>\<open>silenceFrames\<close> is 0 and
  \<^verbatim>\<open>isRecording\<close> is false.
\<close>

definition captureStart :: "SpeechService \<Rightarrow> sdl_world \<Rightarrow> capture" where
  "captureStart s w =
     \<lparr>svc = s, sdl = PauseAudioDevice False w, logs = [], received = [],
      silenceFrames = 0, isRecordingLocal = False, status = Running\<rparr>"

text \<open>The energy classifier on the bytes of a frame.\<close>

definition frameAverage :: "byte list \<Rightarrow> int" where
  "frameAverage bs = sumAbs (bytesToSamples bs) div int (length (bytesToSamples bs))"

definition voicedFrame :: "byte list \<Rightarrow> bool" where
  "voicedFrame bs = (bytesToSamples bs \<noteq> [] \<and> frameAverage bs > VadThreshold)"

definition silentFrame :: "byte list \<Rightarrow> bool" where
  "silentFrame bs = (bytesToSamples bs \<noteq> [] \<and> \<not> frameAverage bs > VadThreshold)"

subsection \<open>Lifecycle operations of the speech service\<close>

datatype speech_error =
    SdlInitFailed
  | OpenAudioDeviceFailed
  | NotInitialized
  | AlreadyListening
  | NotCurrentlyListening

text \<open>
  \<^verbatim>\<open>Initialize\<close>: \<open>initOk\<close> tells whether \<^verbatim>\<open>sdl.Init\<close> succeeds and \<open>opened\<close> is the
  device id \<^verbatim>\<open>sdl.OpenAudioDevice\<close> returns, if it returns one.
\<close>

definition Initialize ::
  "bool \<Rightarrow> nat option \<Rightarrow> SpeechService \<times> sdl_world \<Rightarrow> speech_error + SpeechService \<times> sdl_world" where
  "Initialize initOk opened x =
     (case x of (s, w) \<Rightarrow>
        if isInitialized s then Inr (s, w)
        else if \<not> initOk then Inl SdlInitFailed
        else (case opened of
                None \<Rightarrow> Inl OpenAudioDeviceFailed
              | Some d \<Rightarrow> Inr (s\<lparr>deviceID := d, isInitialized := True\<rparr>,
                             w\<lparr>sdlInit := True, deviceOpen := True, devicePaused := True\<rparr>)))"

text \<open>\<^verbatim>\<open>StartListening\<close>; on success the caller spawns \<^verbatim>\<open>captureAudio\<close>.\<close>

definition StartListening :: "SpeechService \<Rightarrow> speech_error + SpeechService" where
  "StartListening s =
     (if \<not> isInitialized s then Inl NotInitialized
      else if isListening s then Inl AlreadyListening
      else Inr (s\<lparr>isListening := True\<rparr>))"

text \<open>\<^verbatim>\<open>StopListening\<close>, with the lines it logs.\<close>

definition StopListening ::
  "SpeechService \<times> sdl_world \<Rightarrow> (SpeechService \<times> sdl_world) \<times> log_line list \<times> speech_error option" where
  "StopListening x =
     (case x of (s, w) \<Rightarrow>
        if \<not> isListening s then ((s, w), [], Some NotCurrentlyListening)
        else ((s\<lparr>isListening := False,
                  stopListening := fst (chanSend (stopListening s) ())\<rparr>,
               PauseAudioDevice True w),
              [StoppedListening], None))"

text \<open>
  \<^verbatim>\<open>SpeechService.Cleanup\<close>. The error of \<^verbatim>\<open>StopListening\<close> is dropped, as in the
  source, and the function returns \<^verbatim>\<open>nil\<close> on every path.
\<close>

definition SpeechService_Cleanup ::
  "SpeechService \<times> sdl_world \<Rightarrow> (SpeechService \<times> sdl_world) \<times> log_line list \<times> speech_error option" where
  "SpeechService_Cleanup x =
     (case x of (s0, w0) \<Rightarrow>
        let s1 = s0\<lparr>isShutdown := True\<rparr>;
            l1 = [StartingSpeechServiceCleanup];
            ((s2, w2), l2) =
               (if isListening s1
                then (case StopListening (s1, w0) of
                        (y, ls, e) \<Rightarrow> (y, l1 @ [StoppingListening] @ ls))
                else ((s1, w0), l1));
            isInit = isInitialized s2;
            dev = deviceID s2;
            s3 = s2\<lparr>isInitialized := False\<rparr>;
            (w3, l3) =
               (if isInit
                then (sdlQuit (if dev > 0 then CloseAudioDevice (PauseAudioDevice True w2) else w2),
                      l2 @ [SdlAudioResourcesReleased])
                else (w2, l2))
        in ((s3, w3), l3 @ [SpeechServiceCleanupCompleted], None))"

text \<open>
  \<open>callTimes f k x\<close>: \<open>k\<close> calls of an operation one after the other, each on the state
  the previous one left; the result is the final state and what each call returned.
\<close>

fun callTimes :: "('s \<Rightarrow> 's \<times> 'l \<times> 'e option) \<Rightarrow> nat \<Rightarrow> 's \<Rightarrow> 's \<times> 'e option list" where
  "callTimes f 0 x = (x, [])"
| "callTimes f (Suc k) x =
     (case f x of (y, l, e) \<Rightarrow> (case callTimes f k y of (z, es) \<Rightarrow> (z, e # es)))"

subsection \<open>Replayed frames\<close>

text \<open>
  Frames for a replaying device: \<open>toneFrame n\<close> holds \<open>n\<close> samples of value 200 (bytes
  \<^verbatim>\<open>C8 00\<close>), \<open>quietFrame n\<close> holds \<open>n\<close> samples of value 0. \<open>listeningService\<close> is
  the service after a successful \<^verbatim>\<open>Initialize\<close> and \<^verbatim>\<open>StartListening\<close>, and
  \<open>listeningCapture\<close> the capture goroutine just spawned on it.
\<close>

definition toneFrame :: "nat \<Rightarrow> byte list" where
  "toneFrame n = concat (replicate n [200, 0])"

definition quietFrame :: "nat \<Rightarrow> byte list" where
  "quietFrame n = concat (replicate n [0, 0])"

definition openedWorld :: sdl_world where
  "openedWorld = \<lparr>sdlInit = True, deviceOpen = True, devicePaused = True\<rparr>"

definition listeningService :: SpeechService where
  "listeningService = NewSpeechService\<lparr>deviceID := 2, isInitialized := True, isListening := True\<rparr>"

definition listeningCapture :: capture where
  "listeningCapture = captureStart listeningService openedWorld"

text \<open>
  Two descriptions used in the proofs. \<open>loopRunning\<close>: the goroutine is alive, the service
  is listening and no stop request is pending. \<open>recordingState c acc k\<close>: the state reached
  from the idle state \<open>c\<close> once a recording has begun, with \<open>acc\<close> accumulated and
  \<open>k\<close> silent frames counted.
\<close>

definition loopRunning :: "capture \<Rightarrow> bool" where
  "loopRunning c = (status c = Running \<and> isListening (svc c) \<and> buf (stopListening (svc c)) = [])"

definition recordingState :: "capture \<Rightarrow> int16 list \<Rightarrow> nat \<Rightarrow> capture" where
  "recordingState c acc k =
     c\<lparr>isRecordingLocal := True, silenceFrames := k,
       svc := (svc c)\<lparr>isRecording := True,
                       audioData := (audioData (svc c))\<lparr>Samples := acc\<rparr>,
                       recordingStarted := fst (chanSend (recordingStarted (svc c)) ())\<rparr>\<rparr>"

text \<open>The invariant of the handoff channel: capacity one, at most one value queued.\<close>

definition slotBounded :: "capture \<Rightarrow> bool" where
  "slotBounded c = (cap (recordingStopped (svc c)) = 1 \<and> length (buf (recordingStopped (svc c))) \<le> 1)"

section \<open>The WAVE container\<close>

text \<open>
  \<^verbatim>\<open>writeWavFile\<close> of the audio test program and \<^verbatim>\<open>saveWavFile\<close> of package
  \<^verbatim>\<open>speech\<close> build the same 44-byte header and write it, then the samples, with
  \<^verbatim>\<open>binary.Write(file, binary.LittleEndian, ...)\<close>. \<^verbatim>\<open>readWavFile\<close> is the reader of
  \<^verbatim>\<open>whisper_test.go\<close>.
\<close>

type_synonym uint16 = "16 word"
type_synonym uint32 = "32 word"

definition le16 :: "16 word \<Rightarrow> byte list" where
  "le16 v = [ucast v, ucast (drop_bit 8 v)]"

definition le32 :: "32 word \<Rightarrow> byte list" where
  "le32 v = [ucast v, ucast (drop_bit 8 v), ucast (drop_bit 16 v), ucast (drop_bit 24 v)]"

record wavHeader =
  ChunkID :: "byte list"
  ChunkSize :: uint32
  Format :: "byte list"
  SubChunk1ID :: "byte list"
  SubChunk1Size :: uint32
  AudioFormat :: uint16
  NumChannels :: uint16
  HeaderSampleRate :: uint32
  ByteRate :: uint32
  BlockAlign :: uint16
  BitsPerSample :: uint16
  SubChunk2ID :: "byte list"
  SubChunk2Size :: uint32

text \<open>
  Go's \<^verbatim>\<open>int\<close> is 64 bits wide here and its division truncates towards zero;
  \<^verbatim>\<open>uint32(x)\<close> keeps the low 32 bits.
\<close>

definition int64 :: "int \<Rightarrow> int" where
  "int64 x = sint (word_of_int x :: 64 word)"

definition goDiv :: "int \<Rightarrow> int \<Rightarrow> int" where
  "goDiv a b = sgn a * sgn b * (\<bar>a\<bar> div \<bar>b\<bar>)"

definition makeWavHeader :: "int16 list \<Rightarrow> int \<Rightarrow> wavHeader" where
  "makeWavHeader samples sampleRate =
     (let dataSize = (word_of_int (int64 (int (length samples) * 2)) :: uint32)
      in \<lparr>ChunkID = [0x52, 0x49, 0x46, 0x46],
          ChunkSize = 36 + dataSize,
          Format = [0x57, 0x41, 0x56, 0x45],
          SubChunk1ID = [0x66, 0x6D, 0x74, 0x20],
          SubChunk1Size = 16,
          AudioFormat = 1,
          NumChannels = 1,
          HeaderSampleRate = word_of_int sampleRate,
          ByteRate = word_of_int (goDiv (int64 (int64 (sampleRate * 1) * 16)) 8),
          BlockAlign = 2,
          BitsPerSample = 16,
          SubChunk2ID = [0x64, 0x61, 0x74, 0x61],
          SubChunk2Size = dataSize\<rparr>)"

text \<open>\<^verbatim>\<open>binary.Write\<close> of the header: the fields in order, little-endian, unpadded.\<close>

definition encodeHeader :: "wavHeader \<Rightarrow> byte list" where
  "encodeHeader h =
     ChunkID h @ le32 (ChunkSize h) @ Format h @ SubChunk1ID h @ le32 (SubChunk1Size h) @
     le16 (AudioFormat h) @ le16 (NumChannels h) @ le32 (HeaderSampleRate h) @
     le32 (ByteRate h) @ le16 (BlockAlign h) @ le16 (BitsPerSample h) @
     SubChunk2ID h @ le32 (SubChunk2Size h)"

text \<open>\<^verbatim>\<open>binary.Write\<close> of the \<^verbatim>\<open>[]int16\<close>.\<close>

definition encodeSamples :: "int16 list \<Rightarrow> byte list" where
  "encodeSamples samples = concat (map le16 samples)"

text \<open>
  Files are a map from names to contents. A failing call of the operating system is the
  parameter \<open>fault\<close>; what a failed write leaves on disk is not modelled.
\<close>

datatype io_error = CreateFailed | WriteFailed | OpenFailed | SeekFailed | ReadFailed

type_synonym files = "string \<rightharpoonup> byte list"

definition writeWavFile ::
  "io_error option \<Rightarrow> string \<Rightarrow> int16 list \<Rightarrow> int \<Rightarrow> files \<Rightarrow> io_error + files" where
  "writeWavFile fault filename samples sampleRate fs =
     (case fault of
        Some e \<Rightarrow> Inl e
      | None \<Rightarrow> Inr (fs(filename \<mapsto>
                  encodeHeader (makeWavHeader samples sampleRate) @ encodeSamples samples)))"

text \<open>
  \<^verbatim>\<open>saveWavFile\<close> differs only in the file: a fresh temporary one, whose name (\<open>tmp\<close>,
  chosen by \<^verbatim>\<open>os.CreateTemp\<close>) it returns. The result here is that name with the content
  written.
\<close>

definition saveWavFile ::
  "io_error option \<Rightarrow> string \<Rightarrow> int16 list \<Rightarrow> int \<Rightarrow> io_error + string \<times> byte list" where
  "saveWavFile fault tmp samples sampleRate =
     (case fault of
        Some e \<Rightarrow> Inl e
      | None \<Rightarrow> Inr (tmp, encodeHeader (makeWavHeader samples sampleRate) @ encodeSamples samples))"

text \<open>
  The inner loop of \<^verbatim>\<open>readWavFile\<close> over one chunk:
  \<^verbatim>\<open>for i := 0; i < bytesRead; i += 2 { if i+1 < bytesRead { ... } }\<close> with
  \<^verbatim>\<open>int16(binary.LittleEndian.Uint16(buffer[i : i+2]))\<close>.
\<close>

fun chunkSamples :: "byte list \<Rightarrow> int16 list" where
  "chunkSamples (b0 # b1 # rest) = (ucast b0 OR push_bit 8 (ucast b1)) # chunkSamples rest"
| "chunkSamples _ = []"

text \<open>
  The outer loop: \<^verbatim>\<open>file.Read\<close> into a buffer of 1024 bytes until \<^verbatim>\<open>io.EOF\<close>. On a
  regular file each read fills the buffer until the data runs out.
\<close>

function readChunks :: "byte list \<Rightarrow> int16 list" where
  "readChunks bs = (if bs = [] then [] else chunkSamples (take 1024 bs) @ readChunks (drop 1024 bs))"
  by pat_completeness auto
termination
  by (relation "measure length") auto

text \<open>
  \<^verbatim>\<open>readWavFile\<close>: the 44 bytes of the header are skipped by \<^verbatim>\<open>file.Seek(44, ...)\<close>
  and the sample rate is set to 16000 ("Assume 16kHz sample rate").
\<close>

definition readWavFile :: "io_error option \<Rightarrow> string \<Rightarrow> files \<Rightarrow> io_error + AudioData" where
  "readWavFile fault filePath fs =
     (case fs filePath of
        None \<Rightarrow> Inl OpenFailed
      | Some content \<Rightarrow>
          (case fault of
             Some e \<Rightarrow> Inl e
           | None \<Rightarrow> Inr \<lparr>Samples = readChunks (drop 44 content), SampleRate = 16000\<rparr>))"

section \<open>The transcription backend\<close>

text \<open>
  The subprocess behind \<^verbatim>\<open>exec.Cmd\<close>: its pid, whether it is still running, and which
  of the three termination attempts of \<^verbatim>\<open>Cleanup\<close> it yields to.
\<close>

datatype proc_reaction = ExitsOnInterrupt | ExitsOnKill | ExitsOnSystemKill | NeverExits

record process =
  pid :: nat
  alive :: bool
  reaction :: proc_reaction

text \<open>
  \<^verbatim>\<open>WhisperServerService\<close>. The configuration only supplies form fields and command
  line arguments and takes no part in the control flow of \<^verbatim>\<open>Transcribe\<close> and
  \<^verbatim>\<open>Cleanup\<close>; it is left out with the debug mode and the start time.
\<close>

record WhisperServerService =
  cmd :: "process option"
  serverURL :: string
  isRunning :: bool
  maxRetries :: nat

definition NewWhisperServerService :: WhisperServerService where
  "NewWhisperServerService = \<lparr>cmd = None, serverURL = [], isRunning = False, maxRetries = 3\<rparr>"

datatype whisper_log =
    StoppingWhisperServer
  | TerminatingProcess nat
  | FailedToSendInterrupt
  | ProcessExitedNormally
  | ForceKilling
  | SentSigkill nat
  | ProcessKilledSuccessfully
  | UsingSystemKill
  | SystemKillSent nat
  | NoProcessToStop
  | WhisperShutdownComplete
  | SendingTranscriptionRequest nat
  | RetryingRequest nat nat
  | ReceivedResponse

text \<open>
  The escalation of \<^verbatim>\<open>Cleanup\<close> on a process: interrupt and wait a second, kill and
  wait a second, then \<^verbatim>\<open>kill -9\<close>. Signalling a process that has already finished
  fails and is logged; \<^verbatim>\<open>cmd.Wait\<close> then returns at once.
\<close>

definition terminate :: "process \<Rightarrow> process \<times> whisper_log list" where
  "terminate p =
     (let l0 = [TerminatingProcess (pid p)] @ (if alive p then [] else [FailedToSendInterrupt])
      in if \<not> alive p \<or> reaction p = ExitsOnInterrupt
         then (p\<lparr>alive := False\<rparr>, l0 @ [ProcessExitedNormally])
         else if reaction p = ExitsOnKill
         then (p\<lparr>alive := False\<rparr>,
               l0 @ [ForceKilling, SentSigkill (pid p), ProcessKilledSuccessfully])
         else (p\<lparr>alive := (reaction p \<noteq> ExitsOnSystemKill)\<rparr>,
               l0 @ [ForceKilling, SentSigkill (pid p), UsingSystemKill, SystemKillSent (pid p)]))"

datatype whisper_error =
    NotRunningError
  | ValidationError
  | SaveAudioError io_error
  | OpenTempFileError
  | CreateFormFileError
  | CopyFileError
  | CloseWriterError
  | CreateRequestError
  | TransportError nat
  | ServerError nat string
  | DecodeError
  | NilPointerPanic

text \<open>\<^verbatim>\<open>WhisperServerService.Cleanup\<close>; it returns \<^verbatim>\<open>nil\<close> on every path.\<close>

definition WhisperServerService_Cleanup ::
  "WhisperServerService \<Rightarrow> WhisperServerService \<times> whisper_log list \<times> whisper_error option" where
  "WhisperServerService_Cleanup s =
     (if \<not> isRunning s then (s, [], None)
      else (let s1 = s\<lparr>isRunning := False\<rparr>
            in case cmd s1 of
                 Some p \<Rightarrow>
                   (case terminate p of (p', ls) \<Rightarrow>
                      (s1\<lparr>cmd := Some p'\<rparr>,
                       [StoppingWhisperServer] @ ls @ [WhisperShutdownComplete], None))
               | None \<Rightarrow>
                   (s1, [StoppingWhisperServer, NoProcessToStop, WhisperShutdownComplete], None)))"

subsection \<open>Transcribe\<close>

text \<open>
  What \<^verbatim>\<open>client.Do\<close> gives for one attempt: a transport error, or a response with its
  status code and body.
\<close>

datatype http_outcome = TransportFailure | Response nat string

record WhisperServerResult =
  Text :: string
  Language :: string
  Success :: bool

text \<open>
  The library calls of \<^verbatim>\<open>Transcribe\<close> that can fail after the audio has been saved,
  and the surroundings of one call: the name of the temporary file, the failure of
  \<^verbatim>\<open>saveWavFile\<close> if any, the first failing library call if any, the outcome of each
  request attempt, and the JSON decoder.
\<close>

datatype io_step = OpenTempFile | CreateFormFile | CopyFile | CloseWriter | NewRequest

record transcribe_env =
  tempName :: string
  saveFault :: "io_error option"
  stepFault :: "io_step option"
  transport :: "nat \<Rightarrow> http_outcome"
  decode :: "string \<Rightarrow> WhisperServerResult option"

text \<open>
  What a call does to the outside, in order: the artifact written and removed, the
  requests sent (with the attempt number), the pauses (in milliseconds) and the lines
  logged.
\<close>

datatype effect =
    WroteArtifact string "byte list"
  | RemovedArtifact string
  | SentRequest nat
  | Slept nat
  | Logged whisper_log

text \<open>
  The retry loop, lines 428 to 443, from attempt number \<open>attempt\<close> on. The result is the
  outcome of the last attempt made (\<open>None\<close> when the loop body never ran) and the effects.
\<close>

function retryLoop ::
  "(nat \<Rightarrow> http_outcome) \<Rightarrow> nat \<Rightarrow> nat \<Rightarrow> http_outcome option \<Rightarrow> http_outcome option \<times> effect list" where
  "retryLoop tr maxR attempt prev =
     (if attempt < maxR then
        (let pre = (if attempt > 0
                    then [Logged (RetryingRequest (attempt + 1) maxR), Slept (attempt * 500)]
                    else []);
             r = tr attempt
         in case r of
              Response st body \<Rightarrow> (Some r, pre @ [SentRequest attempt])
            | TransportFailure \<Rightarrow>
                (case retryLoop tr maxR (attempt + 1) (Some r) of
                   (res, effs) \<Rightarrow> (res, pre @ [SentRequest attempt] @ effs)))
      else (prev, []))"
  by pat_completeness auto
termination
  by (relation "measure (\<lambda>(tr, maxR, attempt, prev). maxR - attempt)") auto

text \<open>The part of \<^verbatim>\<open>Transcribe\<close> after the request has been built, lines 420 to 470.\<close>

definition sendAndDecode ::
  "transcribe_env \<Rightarrow> WhisperServerService \<Rightarrow> (whisper_error + WhisperServerResult) \<times> effect list" where
  "sendAndDecode env s =
     (case cmd s of
        None \<Rightarrow> (Inl NilPointerPanic, [])
      | Some p \<Rightarrow>
          (case retryLoop (transport env) (maxRetries s) 0 None of
             (res, effs) \<Rightarrow>
               (let effs1 = [Logged (SendingTranscriptionRequest (pid p))] @ effs
                in case res of
                     None \<Rightarrow> (Inl NilPointerPanic, effs1)
                   | Some TransportFailure \<Rightarrow> (Inl (TransportError (maxRetries s)), effs1)
                   | Some (Response st body) \<Rightarrow>
                       (let effs2 = effs1 @ [Logged ReceivedResponse]
                        in if st \<noteq> 200 then (Inl (ServerError st body), effs2)
                           else (case decode env body of
                                   None \<Rightarrow> (Inl DecodeError, effs2)
                                 | Some r \<Rightarrow> (Inr (r\<lparr>Success := True\<rparr>), effs2))))))"

text \<open>
  \<^verbatim>\<open>Transcribe\<close>. The utterance is \<open>None\<close> for a \<^verbatim>\<open>nil\<close> pointer. Once
  \<^verbatim>\<open>saveWavFile\<close> has succeeded the removal of the artifact is deferred and runs on
  every return, a panic included. When \<^verbatim>\<open>saveWavFile\<close> fails after having created
  the temporary file, the file stays behind, incomplete (recorded here with no content).
\<close>

definition Transcribe ::
  "transcribe_env \<Rightarrow> WhisperServerService \<Rightarrow> AudioData option \<Rightarrow>
     (whisper_error + WhisperServerResult) \<times> effect list" where
  "Transcribe env s audio =
     (if \<not> isRunning s then (Inl NotRunningError, [])
      else (case audio of
              None \<Rightarrow> (Inl ValidationError, [])
            | Some a \<Rightarrow>
                if length (Samples a) = 0 then (Inl ValidationError, [])
                else (case saveWavFile (saveFault env) (tempName env) (Samples a) (SampleRate a) of
                        Inl e \<Rightarrow>
                          (Inl (SaveAudioError e),
                           if e = CreateFailed then [] else [WroteArtifact (tempName env) []])
                      | Inr (wavFile, content) \<Rightarrow>
                          (let (res, effs) =
                                 (case stepFault env of
                                    Some OpenTempFile \<Rightarrow> (Inl OpenTempFileError, [])
                                  | Some CreateFormFile \<Rightarrow> (Inl CreateFormFileError, [])
                                  | Some CopyFile \<Rightarrow> (Inl CopyFileError, [])
                                  | Some CloseWriter \<Rightarrow> (Inl CloseWriterError, [])
                                  | Some NewRequest \<Rightarrow> (Inl CreateRequestError, [])
                                  | None \<Rightarrow> sendAndDecode env s)
                           in (res, [WroteArtifact wavFile content] @ effs @
                                    [RemovedArtifact wavFile])))))"

text \<open>The number of requests among the effects of a call.\<close>

definition requestsSent :: "effect list \<Rightarrow> nat list" where
  "requestsSent effs = concat (map (\<lambda>e. case e of SentRequest n \<Rightarrow> [n] | _ \<Rightarrow> []) effs)"

section \<open>The shutdown coordinator\<close>

text \<open>
  A \<^verbatim>\<open>Shutdownable\<close>: its name and what its \<^verbatim>\<open>Shutdown\<close> does when called:
  return \<^verbatim>\<open>nil\<close>, return an error, or never return.
\<close>

datatype shutdown_result = ReturnsNil | ReturnsError string | NeverReturns

record Shutdownable =
  Name :: string
  Shutdown :: shutdown_result

text \<open>
  \<^verbatim>\<open>GracefulShutdown\<close>. The signal channel and the callback list play no part in
  \<^verbatim>\<open>Register\<close> and \<^verbatim>\<open>shutdown\<close>.
\<close>

record GracefulShutdown =
  services :: "Shutdownable list"
  timeout :: nat

definition NewGracefulShutdown :: "nat \<Rightarrow> GracefulShutdown" where
  "NewGracefulShutdown t = \<lparr>services = [], timeout = t\<rparr>"

definition Register :: "GracefulShutdown \<Rightarrow> Shutdownable \<Rightarrow> GracefulShutdown" where
  "Register gs s = gs\<lparr>services := services gs @ [s]\<rparr>"

datatype shutdown_log =
    ShuttingDownServices nat
  | ShuttingDown string
  | ErrorShuttingDown string string
  | SuccessfullyShutDown string

text \<open>
  A shutdown pass in flight: the registry (which concurrent calls of \<^verbatim>\<open>Register\<close> may
  still extend), the snapshot \<^verbatim>\<open>svcs\<close>, the goroutines spawned and not yet run (each
  with the service it was given as argument, numbered by position in the snapshot), the
  calls of \<^verbatim>\<open>Shutdown\<close> made so far, the number of \<^verbatim>\<open>wg.Done()\<close> and the log.
\<close>

record shutdown_pass =
  registry :: GracefulShutdown
  svcs :: "Shutdownable list"
  spawned :: "(nat \<times> Shutdownable) list"
  invoked :: "(nat \<times> Shutdownable) list"
  finished :: nat
  shutdownLog :: "shutdown_log list"

text \<open>
  \<^verbatim>\<open>shutdown\<close> up to the end of the \<^verbatim>\<open>for\<close> loop that spawns the goroutines: the
  snapshot is copied under the lock; with no service the function returns at once.
\<close>

definition shutdownBegin :: "GracefulShutdown \<Rightarrow> shutdown_pass" where
  "shutdownBegin gs =
     (let snapshot = services gs
      in if length snapshot = 0
         then \<lparr>registry = gs, svcs = snapshot, spawned = [], invoked = [], finished = 0,
               shutdownLog = []\<rparr>
         else \<lparr>registry = gs, svcs = snapshot, spawned = enumerate 0 snapshot, invoked = [],
               finished = 0, shutdownLog = [ShuttingDownServices (length snapshot)]\<rparr>)"

text \<open>The body of one goroutine, run as a whole.\<close>

definition goroutineBody :: "nat \<times> Shutdownable \<Rightarrow> shutdown_pass \<Rightarrow> shutdown_pass" where
  "goroutineBody g p =
     (case g of (i, s) \<Rightarrow>
        p\<lparr>spawned := removeAll g (spawned p),
          invoked := invoked p @ [g],
          finished := finished p + (if Shutdown s = NeverReturns then 0 else 1),
          shutdownLog := shutdownLog p @ [ShuttingDown (Name s)] @
             (case Shutdown s of
                ReturnsNil \<Rightarrow> [SuccessfullyShutDown (Name s)]
              | ReturnsError e \<Rightarrow> [ErrorShuttingDown (Name s) e]
              | NeverReturns \<Rightarrow> [])\<rparr>)"

text \<open>
  What happens while the pass is in flight: the scheduler runs the goroutine numbered
  \<open>i\<close> (if it is still waiting), or another thread calls \<^verbatim>\<open>Register\<close>.
\<close>

datatype sched_event = RunGoroutine nat | ConcurrentRegister Shutdownable

fun passStep :: "sched_event \<Rightarrow> shutdown_pass \<Rightarrow> shutdown_pass" where
  "passStep (RunGoroutine i) p =
     (case filter (\<lambda>g. fst g = i) (spawned p) of
        [] \<Rightarrow> p
      | g # gs \<Rightarrow> goroutineBody g p)"
| "passStep (ConcurrentRegister s) p = p\<lparr>registry := Register (registry p) s\<rparr>"

fun runPass :: "sched_event list \<Rightarrow> shutdown_pass \<Rightarrow> shutdown_pass" where
  "runPass [] p = p"
| "runPass (e # es) p = runPass es (passStep e p)"

definition shutdown :: "sched_event list \<Rightarrow> GracefulShutdown \<Rightarrow> shutdown_pass" where
  "shutdown sched gs = runPass sched (shutdownBegin gs)"

definition registeredDuring :: "sched_event list \<Rightarrow> Shutdownable list" where
  "registeredDuring sched =
     concat (map (\<lambda>e. case e of ConcurrentRegister s \<Rightarrow> [s] | RunGoroutine i \<Rightarrow> []) sched)"

section \<open>The status reporter\<close>

text \<open>
  \<^verbatim>\<open>StatusService\<close>: the \<^verbatim>\<open>done\<close> channel is unbuffered and only ever closed, so
  all that matters is whether it has been closed. Closing a closed channel is a run-time
  panic in Go.
\<close>

datatype go_panic = CloseOfClosedChannel

record StatusService =
  doneClosed :: bool

definition NewStatusServiceWithWriter :: StatusService where
  "NewStatusServiceWithWriter = \<lparr>doneClosed = False\<rparr>"

definition closeChan :: "bool \<Rightarrow> go_panic + bool" where
  "closeChan closed = (if closed then Inl CloseOfClosedChannel else Inr True)"

definition StatusService_Shutdown :: "StatusService \<Rightarrow> go_panic + StatusService \<times> unit option" where
  "StatusService_Shutdown s =
     (case closeChan (doneClosed s) of
        Inl p \<Rightarrow> Inl p
      | Inr c \<Rightarrow> Inr (s\<lparr>doneClosed := c\<rparr>, None))"

section \<open>Concrete services and surroundings\<close>

text \<open>
  A backend as \<^verbatim>\<open>Initialize\<close> leaves it (running, with its subprocess), an utterance of
  one sample, and three surroundings for a call of \<^verbatim>\<open>Transcribe\<close>: the server
  unreachable, the server answering the second attempt with status 500, and the server
  answering the first attempt with status 200.
\<close>

definition serverProcess :: process where
  "serverProcess = \<lparr>pid = 4242, alive = True, reaction = ExitsOnKill\<rparr>"

definition runningBackend :: WhisperServerService where
  "runningBackend =
     NewWhisperServerService\<lparr>cmd := Some serverProcess,
                              serverURL := ''http://127.0.0.1:8080'', isRunning := True\<rparr>"

definition oneSample :: AudioData where
  "oneSample = \<lparr>Samples = [7], SampleRate = 16000\<rparr>"

definition decodeNothing :: "string \<Rightarrow> WhisperServerResult option" where
  "decodeNothing body = None"

definition decodeText :: "string \<Rightarrow> WhisperServerResult option" where
  "decodeText body = Some \<lparr>Text = body, Language = ''en'', Success = False\<rparr>"

definition unreachableEnv :: transcribe_env where
  "unreachableEnv =
     \<lparr>tempName = ''whisper_1.wav'', saveFault = None, stepFault = None,
      transport = (\<lambda>i. TransportFailure), decode = decodeNothing\<rparr>"

definition secondAttemptErrorEnv :: transcribe_env where
  "secondAttemptErrorEnv =
     \<lparr>tempName = ''whisper_2.wav'', saveFault = None, stepFault = None,
      transport = (\<lambda>i. if i = 1 then Response 500 ''overloaded'' else TransportFailure),
      decode = decodeNothing\<rparr>"

definition healthyEnv :: transcribe_env where
  "healthyEnv =
     \<lparr>tempName = ''whisper_3.wav'', saveFault = None, stepFault = None,
      transport = (\<lambda>i. Response 200 ''hello''), decode = decodeText\<rparr>"

text \<open>
  Three services for the coordinator: one stops cleanly, one fails, one never returns;
  and a fourth that registers late.
\<close>

definition cleanService :: Shutdownable where
  "cleanService = \<lparr>Name = ''StatusService'', Shutdown = ReturnsNil\<rparr>"

definition failingService :: Shutdownable where
  "failingService = \<lparr>Name = ''WhisperServer'', Shutdown = ReturnsError ''busy''\<rparr>"

definition hangingService :: Shutdownable where
  "hangingService = \<lparr>Name = ''SpeechService'', Shutdown = NeverReturns\<rparr>"

definition lateService :: Shutdownable where
  "lateService = \<lparr>Name = ''Late'', Shutdown = ReturnsNil\<rparr>"

definition threeServices :: GracefulShutdown where
  "threeServices =
     Register (Register (Register (NewGracefulShutdown 10) cleanService) failingService)
       hangingService"

text \<open>
  Writing an utterance and reading the file back, starting from an empty directory: with
  \<^verbatim>\<open>writeWavFile\<close>, and with \<^verbatim>\<open>saveWavFile\<close>.
\<close>

definition noFiles :: files where
  "noFiles = Map.empty"

definition roundTrip :: "string \<Rightarrow> int16 list \<Rightarrow> int \<Rightarrow> io_error + AudioData" where
  "roundTrip filename samples sampleRate =
     (case writeWavFile None filename samples sampleRate noFiles of
        Inl e \<Rightarrow> Inl e
      | Inr fs \<Rightarrow> readWavFile None filename fs)"

definition roundTripTemp :: "string \<Rightarrow> int16 list \<Rightarrow> int \<Rightarrow> io_error + AudioData" where
  "roundTripTemp tmp samples sampleRate =
     (case saveWavFile None tmp samples sampleRate of
        Inl e \<Rightarrow> Inl e
      | Inr (wavFile, content) \<Rightarrow> readWavFile None wavFile (noFiles(wavFile \<mapsto> content)))"

text \<open>
  The invariant of a shutdown pass over the numbered snapshot \<open>S\<close>: every goroutine is
  either still waiting or has made its call, never both and never twice, and every error
  returned so far is in the log.
\<close>

definition passInv :: "(nat \<times> Shutdownable) list \<Rightarrow> shutdown_pass \<Rightarrow> bool" where
  "passInv S p =
     (distinct (map fst (spawned p @ invoked p)) \<and>
      set (spawned p) \<union> set (invoked p) = set S \<and>
      (\<forall>g \<in> set (invoked p). \<forall>e. Shutdown (snd g) = ReturnsError e \<longrightarrow>
          ErrorShuttingDown (Name (snd g)) e \<in> set (shutdownLog p)))"

section \<open>Properties of the capture loop\<close>

subsection \<open>Frame by frame\<close>

lemma iter_frame:
  "loopRunning c \<Longrightarrow> bytesToSamples bs \<noteq> [] \<Longrightarrow>
     captureIter (Dequeued bs) c = processSamples (bytesToSamples bs) c"
  by (cases bs) (auto simp: captureIter_def loopRunning_def chanRecv_def)

lemma idle_silent:
  "loopRunning c \<Longrightarrow> \<not> isRecordingLocal c \<Longrightarrow> silentFrame bs \<Longrightarrow>
     captureIter (Dequeued bs) c = c"
  by (simp add: iter_frame silentFrame_def frameAverage_def processSamples_def Let_def)

lemma feed_Nil [simp]: "feed [] c = c"
  by (simp add: feed_def)

lemma feed_Cons [simp]: "feed (bs # fs) c = feed fs (captureIter (Dequeued bs) c)"
  by (simp add: feed_def)

lemma feed_append: "feed (xs @ ys) c = feed ys (feed xs c)"
  by (induction xs arbitrary: c) simp_all

lemma feed_idle_silent:
  "loopRunning c \<Longrightarrow> \<not> isRecordingLocal c \<Longrightarrow> \<forall>bs \<in> set fs. silentFrame bs \<Longrightarrow> feed fs c = c"
  by (induction fs) (simp_all add: idle_silent)

lemma loopRunning_recordingState [simp]:
  "loopRunning (recordingState c acc k) = loopRunning c"
  by (simp add: loopRunning_def recordingState_def)

lemma idle_voiced:
  "loopRunning c \<Longrightarrow> \<not> isRecordingLocal c \<Longrightarrow> voicedFrame bs \<Longrightarrow>
     captureIter (Dequeued bs) c = recordingState c (bytesToSamples bs) 0"
  by (simp add: iter_frame voicedFrame_def frameAverage_def processSamples_def Let_def
      startRecording_def recordFrame_def recordingState_def)

lemma recordingState_append:
  "(recordingState c acc k)\<lparr>svc := (svc (recordingState c acc k))\<lparr>audioData :=
      (audioData (svc (recordingState c acc k)))\<lparr>Samples :=
         Samples (audioData (svc (recordingState c acc k))) @ samples\<rparr>\<rparr>\<rparr> =
   recordingState c (acc @ samples) k"
  by (simp add: recordingState_def)

lemma recordingState_count:
  "(recordingState c acc k)\<lparr>silenceFrames := j\<rparr> = recordingState c acc j"
  by (simp add: recordingState_def)

lemma silenceFrames_recordingState [simp]: "silenceFrames (recordingState c acc k) = k"
  by (simp add: recordingState_def)

lemma isRecordingLocal_recordingState [simp]: "isRecordingLocal (recordingState c acc k)"
  by (simp add: recordingState_def)

lemma recordFrame_recording:
  "recordFrame samples average (recordingState c acc k) =
     (if average > VadThreshold then recordingState c (acc @ samples) 0
      else if Suc k \<ge> VadSilenceFrames then endRecording (recordingState c (acc @ samples) (Suc k))
      else recordingState c (acc @ samples) (Suc k))"
  unfolding recordFrame_def Let_def recordingState_append recordingState_count
  by simp

lemma iter_recording:
  assumes "loopRunning c" "bytesToSamples bs \<noteq> []"
  shows "captureIter (Dequeued bs) (recordingState c acc k) =
     (if frameAverage bs > VadThreshold then recordingState c (acc @ bytesToSamples bs) 0
      else if Suc k \<ge> VadSilenceFrames
           then endRecording (recordingState c (acc @ bytesToSamples bs) (Suc k))
      else recordingState c (acc @ bytesToSamples bs) (Suc k))"
proof -
  have "captureIter (Dequeued bs) (recordingState c acc k) =
      processSamples (bytesToSamples bs) (recordingState c acc k)"
    using assms by (simp add: iter_frame)
  also have "\<dots> = recordFrame (bytesToSamples bs) (frameAverage bs) (recordingState c acc k)"
    using assms by (simp add: processSamples_def Let_def frameAverage_def)
  finally show ?thesis
    by (simp only: recordFrame_recording)
qed

lemma recording_voiced:
  "loopRunning c \<Longrightarrow> voicedFrame bs \<Longrightarrow>
     captureIter (Dequeued bs) (recordingState c acc k) = recordingState c (acc @ bytesToSamples bs) 0"
  by (simp add: iter_recording voicedFrame_def)

lemma recording_silent:
  "loopRunning c \<Longrightarrow> silentFrame bs \<Longrightarrow> Suc k < VadSilenceFrames \<Longrightarrow>
     captureIter (Dequeued bs) (recordingState c acc k) = recordingState c (acc @ bytesToSamples bs) (Suc k)"
  by (simp add: iter_recording silentFrame_def)

lemma recording_last_silent:
  "loopRunning c \<Longrightarrow> silentFrame bs \<Longrightarrow> Suc k = VadSilenceFrames \<Longrightarrow>
     captureIter (Dequeued bs) (recordingState c acc k) =
       endRecording (recordingState c (acc @ bytesToSamples bs) (Suc k))"
  by (simp add: iter_recording silentFrame_def)

lemma feed_recording_voiced:
  "loopRunning c \<Longrightarrow> \<forall>bs \<in> set fs. voicedFrame bs \<Longrightarrow>
     feed fs (recordingState c acc k) =
       recordingState c (acc @ concat (map bytesToSamples fs)) (if fs = [] then k else 0)"
  by (induction fs arbitrary: acc k) (simp_all add: recording_voiced)

lemma feed_recording_silent:
  "loopRunning c \<Longrightarrow> \<forall>bs \<in> set fs. silentFrame bs \<Longrightarrow> k + length fs < VadSilenceFrames \<Longrightarrow>
     feed fs (recordingState c acc k) =
       recordingState c (acc @ concat (map bytesToSamples fs)) (k + length fs)"
  by (induction fs arbitrary: acc k) (simp_all add: recording_silent)

lemma loopRunning_endRecording [simp]: "loopRunning (endRecording c) = loopRunning c"
  by (simp add: loopRunning_def endRecording_def Let_def split: prod.splits)

lemma isRecordingLocal_endRecording [simp]: "\<not> isRecordingLocal (endRecording c)"
  by (simp add: endRecording_def Let_def split: prod.splits)

lemma feed_segment:
  assumes run: "loopRunning c" and idle: "\<not> isRecordingLocal c"
    and pre: "\<forall>bs \<in> set pre. silentFrame bs"
    and mid: "\<forall>bs \<in> set mid. voicedFrame bs" and ne: "mid \<noteq> []"
    and post: "\<forall>bs \<in> set post. silentFrame bs" and len: "VadSilenceFrames \<le> length post"
  shows "feed (pre @ mid @ post) c =
    endRecording (recordingState c
       (concat (map bytesToSamples mid) @ concat (map bytesToSamples (take VadSilenceFrames post)))
       VadSilenceFrames)"
proof -
  obtain m ms where m: "mid = m # ms"
    using ne by (cases mid) auto
  define tail where "tail = take 9 post"
  define final where "final = post ! 9"
  define rest where "rest = drop 10 post"
  have split: "post = tail @ final # rest"
    using len id_take_nth_drop [of 9 post]
    by (simp add: tail_def final_def rest_def VadSilenceFrames_def)
  have lt: "length tail = 9"
    using len by (simp add: tail_def VadSilenceFrames_def)
  have take10: "take VadSilenceFrames post = tail @ [final]"
    using split lt by (simp add: VadSilenceFrames_def)
  have tail_silent: "\<forall>bs \<in> set tail. silentFrame bs"
    and final_silent: "silentFrame final"
    and rest_silent: "\<forall>bs \<in> set rest. silentFrame bs"
    using post split by auto
  have 1: "feed pre c = c"
    using run idle pre by (rule feed_idle_silent)
  have 2: "feed mid c = recordingState c (concat (map bytesToSamples mid)) 0"
    using run idle mid by (simp add: m idle_voiced feed_recording_voiced)
  have 3: "feed tail (recordingState c (concat (map bytesToSamples mid)) 0) =
     recordingState c (concat (map bytesToSamples mid) @ concat (map bytesToSamples tail)) 9"
    using feed_recording_silent [OF run tail_silent, of 0] lt
    by (simp add: VadSilenceFrames_def)
  have 4: "captureIter (Dequeued final)
       (recordingState c (concat (map bytesToSamples mid) @ concat (map bytesToSamples tail)) 9) =
     endRecording (recordingState c
       (concat (map bytesToSamples mid) @ concat (map bytesToSamples (tail @ [final]))) VadSilenceFrames)"
    using recording_last_silent [OF run final_silent, of 9]
    by (simp add: VadSilenceFrames_def)
  have 5: "feed rest (endRecording d) = endRecording d" if "loopRunning d" for d
    using that rest_silent by (simp add: feed_idle_silent)
  have "feed (pre @ mid @ post) c = feed rest (captureIter (Dequeued final) (feed tail (feed mid (feed pre c))))"
    by (simp add: split feed_append)
  then show ?thesis
    using run by (simp add: 1 2 3 4 5 take10)
qed

subsection \<open>A closed segment\<close>

lemma endRecording_channel:
  assumes "recordingStopped (svc c) = makeChan 1"
  shows "buf (recordingStopped (svc (endRecording (recordingState c acc k)))) =
     (if AudioFrequency div 4 < length acc
      then [\<lparr>Samples = acc, SampleRate = SampleRate (audioData (svc c))\<rparr>] else [])"
  using assms
  by (simp add: endRecording_def recordingState_def Let_def chanSend_def makeChan_def)

lemma endRecording_logs:
  assumes "recordingStopped (svc c) = makeChan 1"
  shows "logs (endRecording (recordingState c acc k)) =
     logs c @ [if AudioFrequency div 4 < length acc
               then EndOfSpeechDetected (length acc) else RecordingTooShortDiscarded]"
  using assms
  by (simp add: endRecording_def recordingState_def Let_def chanSend_def makeChan_def)

subsection \<open>The replayed frames\<close>

lemma bytesToSamples_toneFrame: "bytesToSamples (toneFrame n) = replicate n 200"
  by (induction n) (simp_all add: toneFrame_def)

lemma bytesToSamples_quietFrame: "bytesToSamples (quietFrame n) = replicate n 0"
  by (induction n) (simp_all add: quietFrame_def)

lemma sumAbs_tone: "sumAbs (replicate n 200) = 200 * int n"
  by (induction n) simp_all

lemma sumAbs_quiet: "sumAbs (replicate n 0) = 0"
  by (induction n) simp_all

lemma voiced_toneFrame: "0 < n \<Longrightarrow> voicedFrame (toneFrame n)"
  by (simp add: voicedFrame_def frameAverage_def bytesToSamples_toneFrame sumAbs_tone
      VadThreshold_def)

lemma silent_quietFrame: "0 < n \<Longrightarrow> silentFrame (quietFrame n)"
  by (simp add: silentFrame_def frameAverage_def bytesToSamples_quietFrame sumAbs_quiet
      VadThreshold_def)

lemma length_concat_replicate: "length (concat (replicate k xs)) = k * length xs"
  by (induction k) simp_all

lemma concat_replicate_replicate: "concat (replicate k (replicate n x)) = replicate (k * n) x"
  by (induction k) (simp_all add: replicate_add)

lemmas frame_lengths =
  length_concat_replicate bytesToSamples_toneFrame bytesToSamples_quietFrame

lemma listeningService_reached:
  "Initialize True (Some 2) (NewSpeechService, \<lparr>sdlInit = False, deviceOpen = False, devicePaused = False\<rparr>) =
     Inr (NewSpeechService\<lparr>deviceID := 2, isInitialized := True\<rparr>, openedWorld) \<and>
   StartListening (NewSpeechService\<lparr>deviceID := 2, isInitialized := True\<rparr>) = Inr listeningService"
  by (simp add: Initialize_def StartListening_def NewSpeechService_def openedWorld_def
      listeningService_def)

lemma loopRunning_listeningCapture: "loopRunning listeningCapture"
  by (simp add: loopRunning_def listeningCapture_def captureStart_def listeningService_def
      NewSpeechService_def makeChan_def)

lemma listeningCapture_fields:
  "\<not> isRecordingLocal listeningCapture"
  "recordingStopped (svc listeningCapture) = makeChan 1"
  "logs listeningCapture = []"
  "SampleRate (audioData (svc listeningCapture)) = 16000"
  "isListening listeningService"
  "buf (stopListening listeningService) = []"
  "recordingStopped listeningService = makeChan 1"
  "SampleRate (audioData listeningService) = 16000"
  by (simp_all add: listeningCapture_def captureStart_def listeningService_def
      NewSpeechService_def AudioFrequency_def makeChan_def)

subsection \<open>One utterance per segment\<close>

text \<open>
  Claim C1, as the loop behaves. Feed a listening capture loop, whose handoff channel is
  empty, with silent frames, then a run of voiced frames holding more than
  \<open>AudioFrequency div 4\<close> samples, then at least \<open>VadSilenceFrames\<close> silent frames.
  Exactly one utterance is handed over and exactly one end of speech is logged. Its
  samples are those of the voiced frames followed by those of the first
  \<open>VadSilenceFrames\<close> silent frames after them: while recording every frame is appended,
  whatever its energy. The silent frames before the run and those after the closing one
  are left out.
\<close>

theorem capture_emits_voiced_run_with_silence_tail:
  assumes "isListening s" and "buf (stopListening s) = []"
    and "recordingStopped s = makeChan 1"
    and "list_all silentFrame pre"
    and "list_all voicedFrame mid"
    and "AudioFrequency div 4 < length (concat (map bytesToSamples mid))"
    and "list_all silentFrame post" and "VadSilenceFrames \<le> length post"
  shows "buf (recordingStopped (svc (feed (pre @ mid @ post) (captureStart s w)))) =
           [\<lparr>Samples = concat (map bytesToSamples mid) @
                        concat (map bytesToSamples (take VadSilenceFrames post)),
             SampleRate = SampleRate (audioData s)\<rparr>] \<and>
         logs (feed (pre @ mid @ post) (captureStart s w)) =
           [EndOfSpeechDetected (length (concat (map bytesToSamples mid) @
                        concat (map bytesToSamples (take VadSilenceFrames post))))]"
proof -
  let ?c = "captureStart s w"
  have run: "loopRunning ?c" and idle: "\<not> isRecordingLocal ?c"
    and ch: "recordingStopped (svc ?c) = makeChan 1" and lg: "logs ?c = []"
    using assms(1-3) by (simp_all add: loopRunning_def captureStart_def)
  have ne: "mid \<noteq> []"
    using assms(6) by auto
  have seg: "feed (pre @ mid @ post) ?c =
    endRecording (recordingState ?c
       (concat (map bytesToSamples mid) @ concat (map bytesToSamples (take VadSilenceFrames post)))
       VadSilenceFrames)"
    using assms(4,5,7,8) by (intro feed_segment run idle ne) (simp_all add: list_all_iff)
  have rate: "SampleRate (audioData (svc ?c)) = SampleRate (audioData s)"
    by (simp add: captureStart_def)
  show ?thesis
    using assms(6) by (simp add: seg endRecording_channel [OF ch] endRecording_logs [OF ch] lg rate)
qed

text \<open>
  Claim C1 as stated fails on the scenario of the specification (20 silent, 30 voiced and
  15 silent frames of 160 samples): the utterance handed over is not the 4800 samples of
  the voiced frames alone.
\<close>

theorem capture_scenario_includes_silence_tail:
  "list_all silentFrame (replicate 20 (quietFrame 160)) \<and>
   list_all voicedFrame (replicate 30 (toneFrame 160)) \<and>
   AudioFrequency div 4 < length (concat (map bytesToSamples (replicate 30 (toneFrame 160)))) \<and>
   list_all silentFrame (replicate 15 (quietFrame 160)) \<and>
   VadSilenceFrames \<le> length (replicate 15 (quietFrame 160)) \<and>
   buf (recordingStopped (svc (feed
      (replicate 20 (quietFrame 160) @ replicate 30 (toneFrame 160) @ replicate 15 (quietFrame 160))
      listeningCapture))) \<noteq>
     [\<lparr>Samples = concat (map bytesToSamples (replicate 30 (toneFrame 160))),
       SampleRate = 16000\<rparr>]"
proof -
  have a: "list_all silentFrame (replicate 20 (quietFrame 160))"
    and b: "list_all voicedFrame (replicate 30 (toneFrame 160))"
    and d: "list_all silentFrame (replicate 15 (quietFrame 160))"
    by (simp_all add: list_all_iff voiced_toneFrame silent_quietFrame)
  have c: "AudioFrequency div 4 < length (concat (map bytesToSamples (replicate 30 (toneFrame 160))))"
    by (simp add: frame_lengths AudioFrequency_def)
  have e: "VadSilenceFrames \<le> length (replicate 15 (quietFrame 160))"
    by (simp add: VadSilenceFrames_def)
  have seg: "feed (replicate 20 (quietFrame 160) @ replicate 30 (toneFrame 160) @
        replicate 15 (quietFrame 160)) listeningCapture =
    endRecording (recordingState listeningCapture
       (concat (map bytesToSamples (replicate 30 (toneFrame 160))) @
        concat (map bytesToSamples (take VadSilenceFrames (replicate 15 (quietFrame 160)))))
       VadSilenceFrames)"
    using a b d e
    by (intro feed_segment loopRunning_listeningCapture listeningCapture_fields)
       (simp_all add: list_all_iff)
  have "length (Samples (hd (buf (recordingStopped (svc (feed
      (replicate 20 (quietFrame 160) @ replicate 30 (toneFrame 160) @ replicate 15 (quietFrame 160))
      listeningCapture)))))) = 6400"
    by (simp add: seg endRecording_channel [OF listeningCapture_fields(2)]
        frame_lengths AudioFrequency_def
        VadSilenceFrames_def)
  moreover have "length (concat (map bytesToSamples (replicate 30 (toneFrame 160)))) = 4800"
    by (simp add: frame_lengths)
  ultimately have "buf (recordingStopped (svc (feed
      (replicate 20 (quietFrame 160) @ replicate 30 (toneFrame 160) @ replicate 15 (quietFrame 160))
      listeningCapture))) \<noteq>
     [\<lparr>Samples = concat (map bytesToSamples (replicate 30 (toneFrame 160))),
       SampleRate = 16000\<rparr>]"
    by auto
  with a b c d e show ?thesis by blast
qed

text \<open>
  The same scenario through the theorem: the utterance is the 4800 voiced samples and the
  1600 samples of the ten silent frames that closed the segment.
\<close>

theorem capture_emits_voiced_run_with_silence_tail_witness:
  "isListening listeningService \<and> buf (stopListening listeningService) = [] \<and>
   recordingStopped listeningService = makeChan 1 \<and>
   list_all silentFrame (replicate 20 (quietFrame 160)) \<and>
   list_all voicedFrame (replicate 30 (toneFrame 160)) \<and>
   AudioFrequency div 4 < length (concat (map bytesToSamples (replicate 30 (toneFrame 160)))) \<and>
   list_all silentFrame (replicate 15 (quietFrame 160)) \<and>
   VadSilenceFrames \<le> length (replicate 15 (quietFrame 160)) \<and>
   buf (recordingStopped (svc (feed
      (replicate 20 (quietFrame 160) @ replicate 30 (toneFrame 160) @ replicate 15 (quietFrame 160))
      (captureStart listeningService openedWorld)))) =
     [\<lparr>Samples = replicate 4800 200 @ replicate 1600 0, SampleRate = 16000\<rparr>] \<and>
   logs (feed
      (replicate 20 (quietFrame 160) @ replicate 30 (toneFrame 160) @ replicate 15 (quietFrame 160))
      (captureStart listeningService openedWorld)) = [EndOfSpeechDetected 6400]"
proof -
  have a: "list_all silentFrame (replicate 20 (quietFrame 160))"
    and b: "list_all voicedFrame (replicate 30 (toneFrame 160))"
    and d: "list_all silentFrame (replicate 15 (quietFrame 160))"
    by (simp_all add: list_all_iff voiced_toneFrame silent_quietFrame)
  have c: "AudioFrequency div 4 < length (concat (map bytesToSamples (replicate 30 (toneFrame 160))))"
    by (simp add: frame_lengths AudioFrequency_def)
  have e: "VadSilenceFrames \<le> length (replicate 15 (quietFrame 160))"
    by (simp add: VadSilenceFrames_def)
  note t = capture_emits_voiced_run_with_silence_tail
    [OF listeningCapture_fields(5,6,7) a b c d e, of openedWorld]
  have "concat (map bytesToSamples (replicate 30 (toneFrame 160))) @
        concat (map bytesToSamples (take VadSilenceFrames (replicate 15 (quietFrame 160)))) =
        replicate 4800 200 @ replicate 1600 0"
    by (simp add: bytesToSamples_toneFrame bytesToSamples_quietFrame concat_replicate_replicate
        VadSilenceFrames_def)
  with t have "buf (recordingStopped (svc (feed
      (replicate 20 (quietFrame 160) @ replicate 30 (toneFrame 160) @ replicate 15 (quietFrame 160))
      (captureStart listeningService openedWorld)))) =
     [\<lparr>Samples = replicate 4800 200 @ replicate 1600 0, SampleRate = 16000\<rparr>] \<and>
   logs (feed
      (replicate 20 (quietFrame 160) @ replicate 30 (toneFrame 160) @ replicate 15 (quietFrame 160))
      (captureStart listeningService openedWorld)) = [EndOfSpeechDetected 6400]"
    by (simp add: listeningCapture_fields frame_lengths VadSilenceFrames_def)
  with a b c d e listeningCapture_fields(5,6,7) show ?thesis
    by blast
qed

text \<open>
  Claim C2 at the boundary. A voiced frame of 3990 samples followed by ten silent frames
  of one sample makes a segment of exactly \<open>AudioFrequency div 4 = 4000\<close> samples, a
  quarter of a second. The loop compares with \<^verbatim>\<open>>\<close>, although its comment reads
  "At least 0.25s of audio": the segment is discarded and nothing is handed over.
\<close>

theorem capture_discards_segment_of_exactly_quarter_second:
  "voicedFrame (toneFrame 3990) \<and> list_all silentFrame (replicate 10 (quietFrame 1)) \<and>
   length (concat (map bytesToSamples (toneFrame 3990 # replicate 10 (quietFrame 1)))) =
     AudioFrequency div 4 \<and>
   buf (recordingStopped (svc (feed (toneFrame 3990 # replicate 10 (quietFrame 1))
      listeningCapture))) = [] \<and>
   logs (feed (toneFrame 3990 # replicate 10 (quietFrame 1)) listeningCapture) =
     [RecordingTooShortDiscarded]"
proof -
  have a: "voicedFrame (toneFrame 3990)"
    and d: "list_all silentFrame (replicate 10 (quietFrame 1))"
    by (simp_all add: list_all_iff voiced_toneFrame silent_quietFrame)
  have n: "length (concat (map bytesToSamples (toneFrame 3990 # replicate 10 (quietFrame 1)))) =
     AudioFrequency div 4"
    by (simp add: frame_lengths AudioFrequency_def)
  have "feed ([] @ [toneFrame 3990] @ replicate 10 (quietFrame 1)) listeningCapture =
    endRecording (recordingState listeningCapture
       (concat (map bytesToSamples [toneFrame 3990]) @
        concat (map bytesToSamples (take VadSilenceFrames (replicate 10 (quietFrame 1)))))
       VadSilenceFrames)"
    using a d
    by (intro feed_segment loopRunning_listeningCapture listeningCapture_fields)
       (simp_all add: list_all_iff VadSilenceFrames_def)
  then have "buf (recordingStopped (svc (feed (toneFrame 3990 # replicate 10 (quietFrame 1))
      listeningCapture))) = [] \<and>
   logs (feed (toneFrame 3990 # replicate 10 (quietFrame 1)) listeningCapture) =
     [RecordingTooShortDiscarded]"
    by (simp add: endRecording_channel [OF listeningCapture_fields(2)]
        endRecording_logs [OF listeningCapture_fields(2)] listeningCapture_fields(3)
        frame_lengths AudioFrequency_def VadSilenceFrames_def)
  with a d n show ?thesis by blast
qed

subsection \<open>The handoff channel\<close>

lemma slotBounded_captureExit: "slotBounded (captureExit c) = slotBounded c"
  by (simp add: slotBounded_def captureExit_def)

lemma slotBounded_startRecording: "slotBounded (startRecording c) = slotBounded c"
  by (simp add: slotBounded_def startRecording_def)

lemma slotBounded_endRecording: "slotBounded c \<Longrightarrow> slotBounded (endRecording c)"
  by (auto simp: slotBounded_def endRecording_def Let_def chanSend_def split: prod.splits if_splits)

lemma slotBounded_recordFrame: "slotBounded c \<Longrightarrow> slotBounded (recordFrame samples average c)"
proof -
  assume a: "slotBounded c"
  have b: "slotBounded (c\<lparr>svc := (svc c)\<lparr>audioData := x\<rparr>, silenceFrames := k\<rparr>)" for x k
    using a by (simp add: slotBounded_def)
  have d: "slotBounded (c\<lparr>svc := (svc c)\<lparr>audioData := x\<rparr>\<rparr>)" for x
    using a by (simp add: slotBounded_def)
  show ?thesis
    unfolding recordFrame_def Let_def
    by (auto intro!: slotBounded_endRecording simp: b d)
qed

lemma slotBounded_processSamples: "slotBounded c \<Longrightarrow> slotBounded (processSamples samples c)"
proof -
  assume a: "slotBounded c"
  have b: "slotBounded ((captureExit c)\<lparr>status := Panicked\<rparr>)"
    using a by (simp add: slotBounded_def captureExit_def)
  show ?thesis
    unfolding processSamples_def Let_def
    by (auto simp: a b slotBounded_startRecording intro!: slotBounded_recordFrame)
qed

lemma slotBounded_captureIter: "slotBounded c \<Longrightarrow> slotBounded (captureIter d c)"
proof -
  assume a: "slotBounded c"
  have b: "slotBounded (c\<lparr>svc := (svc c)\<lparr>stopListening := x\<rparr>\<rparr>)" for x
    using a by (simp add: slotBounded_def)
  have e: "slotBounded (c\<lparr>logs := l\<rparr>)" for l
    using a by (simp add: slotBounded_def)
  show ?thesis
    unfolding captureIter_def
    by (auto simp: a b e slotBounded_captureExit slotBounded_processSamples
        split: prod.splits option.splits dequeued.splits)
qed

lemma slotBounded_consumerReceive: "slotBounded c \<Longrightarrow> slotBounded (consumerReceive c)"
  by (auto simp: slotBounded_def consumerReceive_def chanRecv_def split: list.splits)

lemma slotBounded_run: "slotBounded c \<Longrightarrow> slotBounded (run evs c)"
proof (induction evs arbitrary: c)
  case Nil
  then show ?case by simp
next
  case (Cons e evs)
  then show ?case
    by (cases e) (simp_all add: slotBounded_captureIter slotBounded_consumerReceive)
qed

lemma endRecording_full_slot:
  assumes "cap (recordingStopped (svc c)) = 1" and "buf (recordingStopped (svc c)) = [u]"
  shows "buf (recordingStopped (svc (endRecording c))) = [u]"
    and "AudioFrequency div 4 < length (Samples (audioData (svc c))) \<Longrightarrow>
           logs (endRecording c) = logs c @ [ChannelFullDroppingAudio]"
    and "received (consumerReceive (endRecording c)) = received c @ [u]"
  using assms
  by (simp_all add: endRecording_def Let_def chanSend_def consumerReceive_def chanRecv_def)

text \<open>
  Claim C8. The handoff channel \<^verbatim>\<open>recordingStopped\<close> has capacity one. Whatever the
  interleaving of loop iterations (frames of any content, read errors) and receptions by
  the consumer, it never holds more than one utterance. When it holds an utterance
  \<open>u\<close> and the loop closes another segment, \<open>u\<close> stays in the channel, the new
  utterance is dropped with the warning logged, and the next reception delivers \<open>u\<close>.
  The send is the \<^verbatim>\<open>select\<close> with a \<^verbatim>\<open>default\<close> branch, \<open>chanSend\<close>, which
  always returns: the producer does not block.
\<close>

theorem handoff_slot_holds_at_most_one:
  assumes "cap (recordingStopped s) = 1" and "length (buf (recordingStopped s)) \<le> 1"
  shows "length (buf (recordingStopped (svc (run evs (captureStart s w))))) \<le> 1 \<and>
         (buf (recordingStopped (svc (run evs (captureStart s w)))) = [u] \<longrightarrow>
            buf (recordingStopped (svc (endRecording (run evs (captureStart s w))))) = [u] \<and>
            (AudioFrequency div 4 < length (Samples (audioData (svc (run evs (captureStart s w))))) \<longrightarrow>
               logs (endRecording (run evs (captureStart s w))) =
                 logs (run evs (captureStart s w)) @ [ChannelFullDroppingAudio]) \<and>
            received (consumerReceive (endRecording (run evs (captureStart s w)))) =
              received (run evs (captureStart s w)) @ [u])"
proof -
  have "slotBounded (captureStart s w)"
    using assms by (simp add: slotBounded_def captureStart_def)
  then have inv: "slotBounded (run evs (captureStart s w))"
    by (rule slotBounded_run)
  then show ?thesis
    using endRecording_full_slot [of "run evs (captureStart s w)" u]
    by (simp add: slotBounded_def)
qed

lemma endRecording_samples:
  "Samples (audioData (svc (endRecording (recordingState c acc k)))) = acc"
  by (simp add: endRecording_def recordingState_def Let_def split: prod.splits)

lemma endRecording_received:
  "received (endRecording (recordingState c acc k)) = received c"
  by (simp add: endRecording_def recordingState_def Let_def split: prod.splits)

text \<open>
  A run in which the slot is occupied: one segment of 4011 samples has been handed over
  and not yet received when a second emission of the same accumulator is attempted.
\<close>

theorem handoff_slot_holds_at_most_one_witness:
  "cap (recordingStopped listeningService) = 1 \<and>
   length (buf (recordingStopped listeningService)) \<le> 1 \<and>
   buf (recordingStopped (svc (feed (toneFrame 4001 # replicate 10 (quietFrame 1))
       (captureStart listeningService openedWorld)))) =
     [\<lparr>Samples = replicate 4001 200 @ replicate 10 0, SampleRate = 16000\<rparr>] \<and>
   AudioFrequency div 4 < length (Samples (audioData (svc
       (feed (toneFrame 4001 # replicate 10 (quietFrame 1))
          (captureStart listeningService openedWorld))))) \<and>
   buf (recordingStopped (svc (endRecording
       (feed (toneFrame 4001 # replicate 10 (quietFrame 1))
          (captureStart listeningService openedWorld))))) =
     [\<lparr>Samples = replicate 4001 200 @ replicate 10 0, SampleRate = 16000\<rparr>] \<and>
   logs (endRecording (feed (toneFrame 4001 # replicate 10 (quietFrame 1))
          (captureStart listeningService openedWorld))) =
     [EndOfSpeechDetected 4011, ChannelFullDroppingAudio] \<and>
   received (consumerReceive (endRecording
       (feed (toneFrame 4001 # replicate 10 (quietFrame 1))
          (captureStart listeningService openedWorld)))) =
     [\<lparr>Samples = replicate 4001 200 @ replicate 10 0, SampleRate = 16000\<rparr>]"
proof -
  let ?fs = "toneFrame 4001 # replicate 10 (quietFrame 1)"
  let ?u = "\<lparr>Samples = replicate 4001 200 @ replicate 10 (0::int16), SampleRate = 16000\<rparr>"
  have h1: "cap (recordingStopped listeningService) = 1"
    and h2: "length (buf (recordingStopped listeningService)) \<le> 1"
    by (simp_all add: listeningCapture_fields makeChan_def)
  have a: "voicedFrame (toneFrame 4001)"
    and d: "list_all silentFrame (replicate 10 (quietFrame 1))"
    by (simp_all add: list_all_iff voiced_toneFrame silent_quietFrame)
  have "feed ([] @ [toneFrame 4001] @ replicate 10 (quietFrame 1)) listeningCapture =
    endRecording (recordingState listeningCapture
       (concat (map bytesToSamples [toneFrame 4001]) @
        concat (map bytesToSamples (take VadSilenceFrames (replicate 10 (quietFrame 1)))))
       VadSilenceFrames)"
    using a d
    by (intro feed_segment loopRunning_listeningCapture listeningCapture_fields)
       (simp_all add: list_all_iff VadSilenceFrames_def)
  then have seg: "feed ?fs (captureStart listeningService openedWorld) =
    endRecording (recordingState listeningCapture (replicate 4001 200 @ replicate 10 0)
       VadSilenceFrames)"
    by (simp add: bytesToSamples_toneFrame bytesToSamples_quietFrame concat_replicate_replicate
        VadSilenceFrames_def listeningCapture_def)
  have b: "buf (recordingStopped (svc (feed ?fs (captureStart listeningService openedWorld)))) = [?u]"
    unfolding seg
    by (simp add: endRecording_channel [OF listeningCapture_fields(2)]
        listeningCapture_fields(4) AudioFrequency_def)
  have l: "logs (feed ?fs (captureStart listeningService openedWorld)) = [EndOfSpeechDetected 4011]"
    unfolding seg
    by (simp add: endRecording_logs [OF listeningCapture_fields(2)]
        listeningCapture_fields(3) AudioFrequency_def)
  have r: "received (feed ?fs (captureStart listeningService openedWorld)) = []"
    unfolding seg
    by (simp add: endRecording_received listeningCapture_def captureStart_def)
  have n: "AudioFrequency div 4 < length (Samples (audioData (svc
       (feed ?fs (captureStart listeningService openedWorld)))))"
    unfolding seg
    by (simp add: endRecording_samples AudioFrequency_def)
  note t = handoff_slot_holds_at_most_one [OF h1 h2,
      of "map (\<lambda>bs. LoopIter (Dequeued bs)) ?fs" openedWorld ?u, folded feed_def]
  from t b n have "buf (recordingStopped (svc (endRecording
       (feed ?fs (captureStart listeningService openedWorld))))) = [?u] \<and>
    logs (endRecording (feed ?fs (captureStart listeningService openedWorld))) =
      logs (feed ?fs (captureStart listeningService openedWorld)) @ [ChannelFullDroppingAudio] \<and>
    received (consumerReceive (endRecording
       (feed ?fs (captureStart listeningService openedWorld)))) =
      received (feed ?fs (captureStart listeningService openedWorld)) @ [?u]"
    by blast
  with h1 h2 b n l r show ?thesis
    by simp
qed

section \<open>Properties of the transcription backend\<close>

subsection \<open>The retry loop\<close>

declare retryLoop.simps [simp del]

lemma requestsSent_append [simp]: "requestsSent (xs @ ys) = requestsSent xs @ requestsSent ys"
  by (simp add: requestsSent_def)

lemma requestsSent_simps [simp]:
  "requestsSent [] = []"
  "requestsSent (SentRequest n # es) = n # requestsSent es"
  "requestsSent (Slept k # es) = requestsSent es"
  "requestsSent (Logged l # es) = requestsSent es"
  "requestsSent (WroteArtifact f c # es) = requestsSent es"
  "requestsSent (RemovedArtifact f # es) = requestsSent es"
  by (simp_all add: requestsSent_def)

lemma retryLoop_all_fail:
  "(\<And>i. attempt \<le> i \<Longrightarrow> i < maxR \<Longrightarrow> tr i = TransportFailure) \<Longrightarrow>
   fst (retryLoop tr maxR attempt prev) = (if attempt < maxR then Some TransportFailure else prev) \<and>
   requestsSent (snd (retryLoop tr maxR attempt prev)) = [attempt..<maxR]"
proof (induction tr maxR attempt prev rule: retryLoop.induct)
  case (1 tr maxR attempt prev)
  show ?case
  proof (cases "attempt < maxR")
    case False
    then show ?thesis
      by (subst (1 2) retryLoop.simps) simp
  next
    case True
    have f: "tr attempt = TransportFailure"
      using True "1.prems" by simp
    have ih: "fst (retryLoop tr maxR (attempt + 1) (Some TransportFailure)) =
        (if attempt + 1 < maxR then Some TransportFailure else Some TransportFailure) \<and>
      requestsSent (snd (retryLoop tr maxR (attempt + 1) (Some TransportFailure))) =
        [attempt + 1..<maxR]"
      using "1.IH" [OF True refl refl f] "1.prems" f by simp
    show ?thesis
      using True f ih
      by (subst (1 2) retryLoop.simps) (auto simp: Let_def upt_conv_Cons split: prod.splits)
  qed
qed

lemma retryLoop_first_response:
  "attempt \<le> n \<Longrightarrow> n < maxR \<Longrightarrow> (\<And>i. attempt \<le> i \<Longrightarrow> i < n \<Longrightarrow> tr i = TransportFailure) \<Longrightarrow>
   tr n = Response st body \<Longrightarrow>
   fst (retryLoop tr maxR attempt prev) = Some (Response st body) \<and>
   requestsSent (snd (retryLoop tr maxR attempt prev)) = [attempt..<Suc n]"
proof (induction tr maxR attempt prev rule: retryLoop.induct)
  case (1 tr maxR attempt prev)
  have lt: "attempt < maxR"
    using "1.prems" by simp
  show ?case
  proof (cases "attempt = n")
    case True
    then show ?thesis
      using lt "1.prems"(4)
      by (subst (1 2) retryLoop.simps) (simp add: Let_def)
  next
    case False
    then have less: "attempt < n"
      using "1.prems"(1) by simp
    then have f: "tr attempt = TransportFailure"
      using "1.prems"(3) by simp
    have ih: "fst (retryLoop tr maxR (attempt + 1) (Some TransportFailure)) = Some (Response st body) \<and>
      requestsSent (snd (retryLoop tr maxR (attempt + 1) (Some TransportFailure))) =
        [attempt + 1..<Suc n]"
      using "1.IH" [OF lt refl refl f] less "1.prems" f by simp
    show ?thesis
      using lt f ih less
      by (subst (1 2) retryLoop.simps) (auto simp: Let_def upt_conv_Cons split: prod.splits)
  qed
qed

lemma retryLoop_bound:
  "length (requestsSent (snd (retryLoop tr maxR attempt prev))) \<le> maxR - attempt"
proof (induction tr maxR attempt prev rule: retryLoop.induct)
  case (1 tr maxR attempt prev)
  show ?case
  proof (cases "attempt < maxR")
    case False
    then show ?thesis
      by (subst retryLoop.simps) simp
  next
    case True
    show ?thesis
    proof (cases "tr attempt")
      case TransportFailure
      then show ?thesis
        using True "1.IH" [OF True refl refl TransportFailure]
        by (subst retryLoop.simps) (auto simp: Let_def split: prod.splits)
    next
      case (Response st body)
      then show ?thesis
        using True by (subst retryLoop.simps) (auto simp: Let_def)
    qed
  qed
qed

lemma sendAndDecode_requests_bound:
  "length (requestsSent (snd (sendAndDecode env s))) \<le> maxRetries s"
proof (cases "cmd s")
  case None
  then show ?thesis by (simp add: sendAndDecode_def)
next
  case (Some p)
  obtain res effs where r: "retryLoop (transport env) (maxRetries s) 0 None = (res, effs)"
    by (cases "retryLoop (transport env) (maxRetries s) 0 None")
  have "length (requestsSent effs) \<le> maxRetries s"
    using retryLoop_bound [of "transport env" "maxRetries s" 0 None] by (simp add: r)
  then show ?thesis
    by (simp add: sendAndDecode_def Some r Let_def
        split: option.splits http_outcome.splits)
qed

lemma Transcribe_requests_bound:
  "length (requestsSent (snd (Transcribe env s audio))) \<le> maxRetries s"
  using sendAndDecode_requests_bound [of env s]
  by (auto simp: Transcribe_def saveWavFile_def
      split: option.splits sum.splits prod.splits io_step.splits)

lemma Transcribe_reaches_send:
  assumes "isRunning s" and "Samples a \<noteq> []" and "saveFault env = None" and "stepFault env = None"
  shows "fst (Transcribe env s (Some a)) = fst (sendAndDecode env s)"
    and "requestsSent (snd (Transcribe env s (Some a))) = requestsSent (snd (sendAndDecode env s))"
  using assms
  by (simp_all add: Transcribe_def saveWavFile_def split: prod.splits)

lemma sendAndDecode_all_fail:
  assumes "cmd s = Some p" and "0 < maxRetries s"
    and "\<And>i. i < maxRetries s \<Longrightarrow> transport env i = TransportFailure"
  shows "fst (sendAndDecode env s) = Inl (TransportError (maxRetries s))"
    and "requestsSent (snd (sendAndDecode env s)) = [0..<maxRetries s]"
proof -
  obtain res effs where r: "retryLoop (transport env) (maxRetries s) 0 None = (res, effs)"
    by (cases "retryLoop (transport env) (maxRetries s) 0 None")
  have "res = Some TransportFailure \<and> requestsSent effs = [0..<maxRetries s]"
    using retryLoop_all_fail [of 0 "maxRetries s" "transport env" None] assms(2,3)
    by (simp add: r)
  then show "fst (sendAndDecode env s) = Inl (TransportError (maxRetries s))"
    and "requestsSent (snd (sendAndDecode env s)) = [0..<maxRetries s]"
    by (simp_all add: sendAndDecode_def assms(1) r)
qed

lemma sendAndDecode_first_response:
  assumes "cmd s = Some p" and "n < maxRetries s"
    and "\<And>i. i < n \<Longrightarrow> transport env i = TransportFailure"
    and "transport env n = Response st body"
  shows "fst (sendAndDecode env s) =
           (if st \<noteq> 200 then Inl (ServerError st body)
            else case decode env body of
                   None \<Rightarrow> Inl DecodeError
                 | Some r \<Rightarrow> Inr (r\<lparr>Success := True\<rparr>))"
    and "requestsSent (snd (sendAndDecode env s)) = [0..<Suc n]"
proof -
  obtain res effs where r: "retryLoop (transport env) (maxRetries s) 0 None = (res, effs)"
    by (cases "retryLoop (transport env) (maxRetries s) 0 None")
  have "res = Some (Response st body) \<and> requestsSent effs = [0..<Suc n]"
    using retryLoop_first_response [of 0 n "maxRetries s" "transport env" st body None] assms(2,3,4)
    by (simp add: r)
  then show "fst (sendAndDecode env s) =
           (if st \<noteq> 200 then Inl (ServerError st body)
            else case decode env body of
                   None \<Rightarrow> Inl DecodeError
                 | Some r \<Rightarrow> Inr (r\<lparr>Success := True\<rparr>))"
    and "requestsSent (snd (sendAndDecode env s)) = [0..<Suc n]"
    by (simp_all add: sendAndDecode_def assms(1) r Let_def split: option.splits)
qed

text \<open>
  Claim C3. Take a running backend and a non-empty utterance, with the artifact written
  and the request built. \<^verbatim>\<open>Transcribe\<close> never sends more than \<^verbatim>\<open>maxRetries\<close>
  requests (3 in a service made by \<^verbatim>\<open>NewWhisperServerService\<close>). If every attempt
  fails at the transport level it sends exactly \<^verbatim>\<open>maxRetries\<close> requests and returns
  the transport error. If attempt number \<open>n\<close> (counted from 0, so the \<open>n + 1\<close>-th) is
  the first to get a response, the requests sent are exactly the attempts \<open>0\<close> to
  \<open>n\<close> and none follows: a response with a status other than 200 is returned as a
  server error with its body, not retried.
\<close>

theorem transcribe_retries_only_transport_failures:
  assumes "isRunning s" and "cmd s = Some p" and "Samples a \<noteq> []"
    and "saveFault env = None" and "stepFault env = None"
  shows "length (requestsSent (snd (Transcribe env s (Some a)))) \<le> maxRetries s \<and>
         (0 < maxRetries s \<and> (\<forall>i < maxRetries s. transport env i = TransportFailure) \<longrightarrow>
            fst (Transcribe env s (Some a)) = Inl (TransportError (maxRetries s)) \<and>
            requestsSent (snd (Transcribe env s (Some a))) = [0..<maxRetries s]) \<and>
         (n < maxRetries s \<and> (\<forall>i < n. transport env i = TransportFailure) \<and>
          transport env n = Response st body \<longrightarrow>
            requestsSent (snd (Transcribe env s (Some a))) = [0..<Suc n] \<and>
            fst (Transcribe env s (Some a)) =
              (if st \<noteq> 200 then Inl (ServerError st body)
               else case decode env body of
                      None \<Rightarrow> Inl DecodeError
                    | Some r \<Rightarrow> Inr (r\<lparr>Success := True\<rparr>)))"
  using Transcribe_requests_bound [of env s "Some a"]
    sendAndDecode_all_fail [OF assms(2), of env]
    sendAndDecode_first_response [OF assms(2), of n env st body]
  by (simp add: Transcribe_reaches_send [OF assms(1,3,4,5)])

text \<open>
  Claim C4. When the backend is not running, \<^verbatim>\<open>Transcribe\<close> returns the not-running
  error and has no effect at all: no artifact, no request, no log line. When it is
  running and the utterance is \<^verbatim>\<open>nil\<close> or has no sample, it returns the validation
  error, again with no effect. The running check comes first, so an empty utterance on a
  stopped backend gets the not-running error.
\<close>

theorem transcribe_rejects_before_any_effect:
  "(\<not> isRunning s \<longrightarrow> Transcribe env s audio = (Inl NotRunningError, [])) \<and>
   (isRunning s \<and> (audio = None \<or> (\<exists>a. audio = Some a \<and> Samples a = [])) \<longrightarrow>
      Transcribe env s audio = (Inl ValidationError, []))"
  by (auto simp: Transcribe_def)

lemma runningBackend_fields:
  "isRunning runningBackend" "cmd runningBackend = Some serverProcess"
  "maxRetries runningBackend = 3"
  by (simp_all add: runningBackend_def NewWhisperServerService_def)

lemma oneSample_nonempty: "Samples oneSample \<noteq> []"
  by (simp add: oneSample_def)

text \<open>
  Two calls on a running backend with \<^verbatim>\<open>maxRetries = 3\<close>: with the server unreachable
  three requests are sent and the transport error is returned; with a status 500 on the
  second attempt two requests are sent and the server error is returned.
\<close>

theorem transcribe_retries_only_transport_failures_witness:
  "isRunning runningBackend \<and> cmd runningBackend = Some serverProcess \<and>
   maxRetries runningBackend = 3 \<and> Samples oneSample \<noteq> [] \<and>
   transport unreachableEnv 0 = TransportFailure \<and>
   transport unreachableEnv 1 = TransportFailure \<and>
   transport unreachableEnv 2 = TransportFailure \<and>
   fst (Transcribe unreachableEnv runningBackend (Some oneSample)) = Inl (TransportError 3) \<and>
   requestsSent (snd (Transcribe unreachableEnv runningBackend (Some oneSample))) = [0, 1, 2] \<and>
   transport secondAttemptErrorEnv 0 = TransportFailure \<and>
   transport secondAttemptErrorEnv 1 = Response 500 ''overloaded'' \<and>
   fst (Transcribe secondAttemptErrorEnv runningBackend (Some oneSample)) =
     Inl (ServerError 500 ''overloaded'') \<and>
   requestsSent (snd (Transcribe secondAttemptErrorEnv runningBackend (Some oneSample))) = [0, 1]"
proof -
  have e1: "saveFault unreachableEnv = None" "stepFault unreachableEnv = None"
    and f1: "\<forall>i < maxRetries runningBackend. transport unreachableEnv i = TransportFailure"
    by (simp_all add: unreachableEnv_def)
  have e2: "saveFault secondAttemptErrorEnv = None" "stepFault secondAttemptErrorEnv = None"
    and f2: "\<forall>i < 1. transport secondAttemptErrorEnv i = TransportFailure"
    and r2: "transport secondAttemptErrorEnv 1 = Response 500 ''overloaded''"
    by (simp_all add: secondAttemptErrorEnv_def)
  note t1 = transcribe_retries_only_transport_failures
    [OF runningBackend_fields(1,2) oneSample_nonempty e1, of 0 200 "[]"]
  note t2 = transcribe_retries_only_transport_failures
    [OF runningBackend_fields(1,2) oneSample_nonempty e2, of 1 500 "''overloaded''"]
  have u: "[0..<3] = [0, 1, 2::nat]" "[0..<Suc 1] = [0, 1::nat]"
    by (simp_all add: upt_conv_Cons)
  have a: "fst (Transcribe unreachableEnv runningBackend (Some oneSample)) = Inl (TransportError 3) \<and>
   requestsSent (snd (Transcribe unreachableEnv runningBackend (Some oneSample))) = [0, 1, 2]"
    using t1 f1 by (simp add: runningBackend_fields(3) u)
  have b: "fst (Transcribe secondAttemptErrorEnv runningBackend (Some oneSample)) =
     Inl (ServerError 500 ''overloaded'') \<and>
   requestsSent (snd (Transcribe secondAttemptErrorEnv runningBackend (Some oneSample))) = [0, 1]"
    using t2 f2 r2 by (simp add: runningBackend_fields(3) u)
  have g: "transport unreachableEnv 0 = TransportFailure"
    "transport unreachableEnv 1 = TransportFailure"
    "transport unreachableEnv 2 = TransportFailure"
    "transport secondAttemptErrorEnv 0 = TransportFailure"
    by (simp_all add: unreachableEnv_def secondAttemptErrorEnv_def)
  show ?thesis
    using a b g r2 runningBackend_fields oneSample_nonempty by blast
qed

text \<open>
  A call on a backend that was never started, and calls on a running backend with no
  utterance and with an utterance of no sample.
\<close>

theorem transcribe_rejects_before_any_effect_witness:
  "\<not> isRunning NewWhisperServerService \<and>
   Transcribe healthyEnv NewWhisperServerService (Some oneSample) = (Inl NotRunningError, []) \<and>
   isRunning runningBackend \<and>
   Transcribe healthyEnv runningBackend None = (Inl ValidationError, []) \<and>
   Samples (oneSample\<lparr>Samples := []\<rparr>) = [] \<and>
   Transcribe healthyEnv runningBackend (Some (oneSample\<lparr>Samples := []\<rparr>)) =
     (Inl ValidationError, [])"
proof -
  have n: "\<not> isRunning NewWhisperServerService"
    by (simp add: NewWhisperServerService_def)
  have e: "Samples (oneSample\<lparr>Samples := []\<rparr>) = []"
    by simp
  show ?thesis
    using transcribe_rejects_before_any_effect [of NewWhisperServerService healthyEnv "Some oneSample"]
      transcribe_rejects_before_any_effect [of runningBackend healthyEnv None]
      transcribe_rejects_before_any_effect [of runningBackend healthyEnv "Some (oneSample\<lparr>Samples := []\<rparr>)"]
      n e runningBackend_fields(1)
    by simp
qed

section \<open>Cleanup, shutdown and the status reporter\<close>

subsection \<open>Repeated cleanup\<close>

lemma callTimes_once: "fst (callTimes f 1 x) = fst (f x)"
  by (simp add: split_beta)

lemma callTimes_idempotent:
  assumes idem: "\<And>x. fst (f (fst (f x))) = fst (f x)"
    and err: "\<And>x. snd (snd (f x)) = None"
  shows "1 \<le> k \<Longrightarrow> fst (callTimes f k x) = fst (f x) \<and> snd (callTimes f k x) = replicate k None"
proof (induction k arbitrary: x)
  case 0
  then show ?case by simp
next
  case (Suc k)
  obtain y l e where fx: "f x = (y, l, e)"
    by (cases "f x") auto
  have e: "e = None"
    using err [of x] by (simp add: fx)
  show ?case
  proof (cases k)
    case 0
    then show ?thesis by (simp add: fx e)
  next
    case (Suc j)
    then have "fst (callTimes f k y) = fst (f y) \<and> snd (callTimes f k y) = replicate k None"
      using Suc.IH [of y] by simp
    moreover have "fst (f y) = y"
      using idem [of x] by (simp add: fx)
    ultimately show ?thesis
      by (auto simp: fx e split: prod.splits)
  qed
qed

lemma SpeechService_Cleanup_nil: "snd (snd (SpeechService_Cleanup x)) = None"
  by (simp add: SpeechService_Cleanup_def Let_def split: prod.splits)

lemma SpeechService_Cleanup_state:
  "fst (SpeechService_Cleanup (s, w)) =
     ((if isListening s
       then s\<lparr>isShutdown := True, isListening := False,
              stopListening := fst (chanSend (stopListening s) ())\<rparr>
       else s\<lparr>isShutdown := True\<rparr>)\<lparr>isInitialized := False\<rparr>,
      (let w2 = (if isListening s then PauseAudioDevice True w else w)
       in if isInitialized s
          then sdlQuit (if deviceID s > 0 then CloseAudioDevice (PauseAudioDevice True w2) else w2)
          else w2))"
  by (simp add: SpeechService_Cleanup_def StopListening_def Let_def split: prod.splits)

lemma SpeechService_Cleanup_idem:
  "fst (SpeechService_Cleanup (fst (SpeechService_Cleanup x))) = fst (SpeechService_Cleanup x)"
proof (cases x)
  case (Pair s w)
  show ?thesis
    unfolding Pair SpeechService_Cleanup_state
    by (simp add: SpeechService_Cleanup_state Let_def)
qed

lemma WhisperServerService_Cleanup_nil: "snd (snd (WhisperServerService_Cleanup s)) = None"
  by (simp add: WhisperServerService_Cleanup_def Let_def split: option.splits prod.splits)

lemma WhisperServerService_Cleanup_stops:
  "\<not> isRunning (fst (WhisperServerService_Cleanup s))"
  by (simp add: WhisperServerService_Cleanup_def Let_def split: option.splits prod.splits)

lemma WhisperServerService_Cleanup_idem:
  "fst (WhisperServerService_Cleanup (fst (WhisperServerService_Cleanup s))) =
   fst (WhisperServerService_Cleanup s)"
  using WhisperServerService_Cleanup_stops [of s]
  by (subst WhisperServerService_Cleanup_def) simp

text \<open>
  Claim C5. For the audio capture service (with its device) and for the transcription
  backend (with its subprocess), \<open>k \<ge> 1\<close> calls of \<^verbatim>\<open>Cleanup\<close> in sequence leave the
  same state as one call, and every call returns \<^verbatim>\<open>nil\<close>. The log lines each call
  writes are output, not state.
\<close>

theorem cleanup_repeated_equals_once:
  assumes "1 \<le> k"
  shows "fst (callTimes SpeechService_Cleanup k x) = fst (callTimes SpeechService_Cleanup 1 x) \<and>
         snd (callTimes SpeechService_Cleanup k x) = replicate k None \<and>
         fst (callTimes WhisperServerService_Cleanup k b) =
           fst (callTimes WhisperServerService_Cleanup 1 b) \<and>
         snd (callTimes WhisperServerService_Cleanup k b) = replicate k None"
  using callTimes_idempotent [of SpeechService_Cleanup k x,
      OF SpeechService_Cleanup_idem SpeechService_Cleanup_nil assms]
    callTimes_idempotent [of SpeechService_Cleanup 1 x,
      OF SpeechService_Cleanup_idem SpeechService_Cleanup_nil]
    callTimes_idempotent [of WhisperServerService_Cleanup k b,
      OF WhisperServerService_Cleanup_idem WhisperServerService_Cleanup_nil assms]
    callTimes_idempotent [of WhisperServerService_Cleanup 1 b,
      OF WhisperServerService_Cleanup_idem WhisperServerService_Cleanup_nil]
  by simp

text \<open>
  Three calls on a listening speech service with an open device, and on a running
  backend whose subprocess yields to the kill signal.
\<close>

theorem cleanup_repeated_equals_once_witness:
  "(1::nat) \<le> 3 \<and>
   fst (callTimes SpeechService_Cleanup 3 (listeningService, openedWorld)) =
     (listeningService\<lparr>isInitialized := False, isListening := False, isShutdown := True,
                        stopListening := \<lparr>cap = 1, buf = [()]\<rparr>\<rparr>,
      \<lparr>sdlInit = False, deviceOpen = False, devicePaused = True\<rparr>) \<and>
   snd (callTimes SpeechService_Cleanup 3 (listeningService, openedWorld)) = [None, None, None] \<and>
   fst (callTimes WhisperServerService_Cleanup 3 runningBackend) =
     runningBackend\<lparr>cmd := Some (serverProcess\<lparr>alive := False\<rparr>), isRunning := False\<rparr> \<and>
   snd (callTimes WhisperServerService_Cleanup 3 runningBackend) = [None, None, None]"
proof -
  have k: "(1::nat) \<le> 3"
    by simp
  note t = cleanup_repeated_equals_once [OF k, of "(listeningService, openedWorld)" runningBackend]
  have s1: "fst (callTimes SpeechService_Cleanup 1 (listeningService, openedWorld)) =
     (listeningService\<lparr>isInitialized := False, isListening := False, isShutdown := True,
                        stopListening := \<lparr>cap = 1, buf = [()]\<rparr>\<rparr>,
      \<lparr>sdlInit = False, deviceOpen = False, devicePaused = True\<rparr>)"
    unfolding callTimes_once SpeechService_Cleanup_state
    by (simp add: listeningService_def NewSpeechService_def
        openedWorld_def chanSend_def makeChan_def PauseAudioDevice_def CloseAudioDevice_def
        sdlQuit_def Let_def)
  have w1: "fst (callTimes WhisperServerService_Cleanup 1 runningBackend) =
     runningBackend\<lparr>cmd := Some (serverProcess\<lparr>alive := False\<rparr>), isRunning := False\<rparr>"
    unfolding callTimes_once
    by (simp add: WhisperServerService_Cleanup_def runningBackend_def NewWhisperServerService_def
        serverProcess_def terminate_def Let_def)
  have r: "replicate 3 None = [None, None, None]"
    by (simp add: numeral_3_eq_3)
  show ?thesis
    unfolding r [symmetric] using t s1 w1 by simp
qed

subsection \<open>The shutdown pass\<close>

lemma passStep_run_cases:
  obtains (idle) "\<forall>g \<in> set (spawned p). fst g \<noteq> i" "passStep (RunGoroutine i) p = p"
  | (runs) g where "g \<in> set (spawned p)" "fst g = i" "passStep (RunGoroutine i) p = goroutineBody g p"
proof (cases "filter (\<lambda>g. fst g = i) (spawned p)")
  case Nil
  then have "\<forall>g \<in> set (spawned p). fst g \<noteq> i"
    by (simp add: filter_empty_conv)
  then show ?thesis
    using Nil idle by simp
next
  case (Cons g gs)
  then have "g \<in> set (filter (\<lambda>g. fst g = i) (spawned p))"
    by simp
  then have "g \<in> set (spawned p)" "fst g = i"
    by simp_all
  then show ?thesis
    using Cons runs by simp
qed

declare passStep.simps(1) [simp del]

lemma goroutineBody_fields:
  "spawned (goroutineBody g p) = removeAll g (spawned p)"
  "invoked (goroutineBody g p) = invoked p @ [g]"
  "registry (goroutineBody g p) = registry p"
  "svcs (goroutineBody g p) = svcs p"
  "set (shutdownLog p) \<subseteq> set (shutdownLog (goroutineBody g p))"
  "Shutdown (snd g) = ReturnsError e \<Longrightarrow>
     ErrorShuttingDown (Name (snd g)) e \<in> set (shutdownLog (goroutineBody g p))"
  by (auto simp: goroutineBody_def split: prod.splits)

lemma passStep_spawned_subset: "set (spawned (passStep e p)) \<subseteq> set (spawned p)"
proof (cases e)
  case (RunGoroutine i)
  show ?thesis
  proof (cases rule: passStep_run_cases [of p i])
    case idle
    then show ?thesis by (simp add: RunGoroutine)
  next
    case (runs g)
    then show ?thesis by (auto simp: RunGoroutine goroutineBody_fields(1))
  qed
next
  case (ConcurrentRegister s)
  then show ?thesis by simp
qed

lemma runPass_spawned_subset: "set (spawned (runPass sched p)) \<subseteq> set (spawned p)"
proof (induction sched arbitrary: p)
  case Nil
  then show ?case by simp
next
  case (Cons e sched)
  have "set (spawned (runPass sched (passStep e p))) \<subseteq> set (spawned (passStep e p))"
    by (rule Cons.IH)
  then have "set (spawned (runPass sched (passStep e p))) \<subseteq> set (spawned p)"
    by (rule subset_trans [OF _ passStep_spawned_subset])
  then show ?case by simp
qed

lemma passInv_distinct:
  assumes "passInv S p"
  shows "distinct (map fst (spawned p))" and "distinct (map fst (invoked p))"
    and "fst ` set (spawned p) \<inter> fst ` set (invoked p) = {}"
  using assms unfolding passInv_def by simp_all

lemma passInv_cover: "passInv S p \<Longrightarrow> set (spawned p) \<union> set (invoked p) = set S"
  unfolding passInv_def by simp

lemma passInv_logged:
  "passInv S p \<Longrightarrow> h \<in> set (invoked p) \<Longrightarrow> Shutdown (snd h) = ReturnsError e \<Longrightarrow>
     ErrorShuttingDown (Name (snd h)) e \<in> set (shutdownLog p)"
  unfolding passInv_def by blast

lemma spawned_unique:
  assumes "distinct (map fst xs)" and "g \<in> set xs" and "h \<in> set xs" and "fst h = fst g"
  shows "h = g"
  using assms by (simp add: distinct_map inj_on_def)

lemma passInv_goroutineBody:
  assumes inv: "passInv S p" and g: "g \<in> set (spawned p)"
  shows "passInv S (goroutineBody g p)"
proof -
  note d = passInv_distinct [OF inv]
  have cover: "set (spawned p) \<union> set (invoked p) = set S"
    using inv by (rule passInv_cover)
  have d1: "distinct (map fst (removeAll g (spawned p)))"
    using d(1) by (simp add: distinct_map distinct_removeAll inj_on_def)
  have notin: "fst g \<notin> fst ` set (removeAll g (spawned p))"
  proof
    assume "fst g \<in> fst ` set (removeAll g (spawned p))"
    then obtain h where "h \<in> set (removeAll g (spawned p))" and hg: "fst g = fst h"
      by (rule imageE)
    then have h: "h \<in> set (spawned p)" "h \<noteq> g" "fst h = fst g"
      using hg by simp_all
    then show False
      using spawned_unique [OF d(1) g h(1) h(3)] by simp
  qed
  have notinv: "fst g \<notin> fst ` set (invoked p)"
    using d(3) g by blast
  have sub: "fst ` set (removeAll g (spawned p)) \<subseteq> fst ` set (spawned p)"
    by auto
  have disj: "fst ` set (removeAll g (spawned p)) \<inter> fst ` set (invoked p) = {}"
    using d(3) sub by blast
  have dist: "distinct (map fst (removeAll g (spawned p) @ invoked p @ [g]))"
    using d1 d(2) disj notin notinv by simp
  have cov: "set (removeAll g (spawned p)) \<union> set (invoked p @ [g]) = set S"
    using cover g by auto
  have lg: "ErrorShuttingDown (Name (snd h)) e \<in> set (shutdownLog (goroutineBody g p))"
    if h: "h \<in> set (invoked p @ [g])" and e: "Shutdown (snd h) = ReturnsError e" for h e
  proof (cases "h = g")
    case True
    then show ?thesis
      using e by (simp add: goroutineBody_fields(6))
  next
    case False
    then have "h \<in> set (invoked p)"
      using h by simp
    then have "ErrorShuttingDown (Name (snd h)) e \<in> set (shutdownLog p)"
      using e by (rule passInv_logged [OF inv])
    then show ?thesis
      using goroutineBody_fields(5) [of p g] by blast
  qed
  show ?thesis
    unfolding passInv_def goroutineBody_fields(1,2)
    using dist cov lg by blast
qed

lemma passInv_passStep:
  assumes inv: "passInv S p"
  shows "passInv S (passStep e p)"
proof (cases e)
  case (RunGoroutine i)
  show ?thesis
  proof (cases rule: passStep_run_cases [of p i])
    case idle
    then show ?thesis by (simp add: RunGoroutine inv)
  next
    case (runs g)
    then show ?thesis by (simp add: RunGoroutine passInv_goroutineBody [OF inv])
  qed
next
  case (ConcurrentRegister s)
  then show ?thesis
    using inv by (simp add: passInv_def)
qed

lemma passInv_runPass: "passInv S p \<Longrightarrow> passInv S (runPass sched p)"
  by (induction sched arbitrary: p) (simp_all add: passInv_passStep)

lemma passStep_run_removes:
  assumes "passInv S p"
  shows "i \<notin> fst ` set (spawned (passStep (RunGoroutine i) p))"
proof (cases rule: passStep_run_cases [of p i])
  case idle
  then show ?thesis by auto
next
  case (runs g)
  have d: "distinct (map fst (spawned p))"
    using assms by (rule passInv_distinct(1))
  show ?thesis
  proof
    assume "i \<in> fst ` set (spawned (passStep (RunGoroutine i) p))"
    then obtain h where "h \<in> set (removeAll g (spawned p))" and hi: "i = fst h"
      unfolding runs(3) goroutineBody_fields(1) by (rule imageE)
    then have h: "h \<in> set (spawned p)" "h \<noteq> g" "fst h = fst g"
      using hi runs(2) by simp_all
    then show False
      using spawned_unique [OF d runs(1) h(1) h(3)] by simp
  qed
qed

lemma runPass_run_removes:
  "passInv S p \<Longrightarrow> RunGoroutine i \<in> set sched \<Longrightarrow> i \<notin> fst ` set (spawned (runPass sched p))"
proof (induction sched arbitrary: p)
  case Nil
  then show ?case by simp
next
  case (Cons e sched)
  show ?case
  proof (cases "e = RunGoroutine i")
    case True
    have "i \<notin> fst ` set (spawned (passStep (RunGoroutine i) p))"
      using Cons.prems(1) by (rule passStep_run_removes)
    then show ?thesis
      using runPass_spawned_subset [of sched "passStep (RunGoroutine i) p"] True by auto
  next
    case False
    then have "RunGoroutine i \<in> set sched"
      using Cons.prems(2) by simp
    then show ?thesis
      using Cons.IH [OF passInv_passStep [OF Cons.prems(1)]] by simp
  qed
qed

lemma runPass_registry:
  "services (registry (runPass sched p)) = services (registry p) @ registeredDuring sched \<and>
   svcs (runPass sched p) = svcs p"
proof (induction sched arbitrary: p)
  case Nil
  then show ?case by (simp add: registeredDuring_def)
next
  case (Cons e sched)
  show ?case
  proof (cases e)
    case (RunGoroutine i)
    have "registry (passStep (RunGoroutine i) p) = registry p \<and>
          svcs (passStep (RunGoroutine i) p) = svcs p"
    proof (cases rule: passStep_run_cases [of p i])
      case idle
      then show ?thesis by simp
    next
      case (runs g)
      then show ?thesis by (simp add: goroutineBody_fields(3,4))
    qed
    then show ?thesis
      using Cons [of "passStep (RunGoroutine i) p"] RunGoroutine
      by (simp add: registeredDuring_def)
  next
    case (ConcurrentRegister s)
    then show ?thesis
      using Cons [of "passStep (ConcurrentRegister s) p"]
      by (simp add: registeredDuring_def Register_def)
  qed
qed

lemma threeServices_services:
  "services threeServices = [cleanService, failingService, hangingService]"
  by (simp add: threeServices_def Register_def NewGracefulShutdown_def)

lemma passInv_shutdownBegin: "passInv (enumerate 0 (services gs)) (shutdownBegin gs)"
  by (simp add: passInv_def shutdownBegin_def Let_def)

lemma shutdownBegin_fields:
  "registry (shutdownBegin gs) = gs" "svcs (shutdownBegin gs) = services gs"
  by (simp_all add: shutdownBegin_def Let_def)

text \<open>
  Claim C6. \<^verbatim>\<open>shutdown\<close> works on the snapshot of the registry taken at its start.
  Whatever the scheduler does, no goroutine calls \<^verbatim>\<open>Shutdown\<close> twice and only services
  of the snapshot are called; once every goroutine has run, each service of the snapshot
  has been called exactly once, whether the other services return \<^verbatim>\<open>nil\<close>, return an
  error or never return. Every error returned is in the log. A service registered while
  the pass is in flight is appended to the registry and is not in the snapshot.
\<close>

theorem shutdown_calls_each_snapshot_service_once:
  "svcs (shutdown sched gs) = services gs \<and>
   services (registry (shutdown sched gs)) = services gs @ registeredDuring sched \<and>
   distinct (map fst (invoked (shutdown sched gs))) \<and>
   set (invoked (shutdown sched gs)) \<subseteq> set (enumerate 0 (services gs)) \<and>
   ((\<forall>i < length (services gs). RunGoroutine i \<in> set sched) \<longrightarrow>
      set (invoked (shutdown sched gs)) = set (enumerate 0 (services gs))) \<and>
   (\<forall>g \<in> set (invoked (shutdown sched gs)). \<forall>e. Shutdown (snd g) = ReturnsError e \<longrightarrow>
      ErrorShuttingDown (Name (snd g)) e \<in> set (shutdownLog (shutdown sched gs)))"
proof -
  let ?S = "enumerate 0 (services gs)"
  let ?p = "shutdown sched gs"
  have inv: "passInv ?S ?p"
    unfolding shutdown_def by (rule passInv_runPass [OF passInv_shutdownBegin])
  have reg: "svcs ?p = services gs"
    "services (registry ?p) = services gs @ registeredDuring sched"
    using runPass_registry [of sched "shutdownBegin gs"]
    by (simp_all add: shutdown_def shutdownBegin_fields)
  have all: "set (invoked ?p) = set ?S" if fair: "\<forall>i < length (services gs). RunGoroutine i \<in> set sched"
  proof -
    have "g \<notin> set (spawned ?p)" for g
    proof
      assume g: "g \<in> set (spawned ?p)"
      then have "g \<in> set ?S"
        using inv by (auto simp: passInv_def)
      then have "(fst g, snd g) \<in> set ?S"
        by simp
      then have "fst g < length (services gs)"
        unfolding in_set_enumerate_eq by simp
      then have "RunGoroutine (fst g) \<in> set sched"
        using fair by simp
      then have "fst g \<notin> fst ` set (spawned ?p)"
        unfolding shutdown_def by (rule runPass_run_removes [OF passInv_shutdownBegin])
      then show False
        using g by auto
    qed
    then have "set (spawned ?p) = {}"
      by (meson all_not_in_conv)
    then show ?thesis
      using inv by (simp add: passInv_def)
  qed
  have 1: "distinct (map fst (invoked ?p))"
    using inv by (rule passInv_distinct(2))
  have 2: "set (invoked ?p) \<subseteq> set ?S"
    using passInv_cover [OF inv] by blast
  have 3: "\<forall>g \<in> set (invoked ?p). \<forall>e. Shutdown (snd g) = ReturnsError e \<longrightarrow>
      ErrorShuttingDown (Name (snd g)) e \<in> set (shutdownLog ?p)"
    using passInv_logged [OF inv] by blast
  show ?thesis
    using reg 1 2 3 all by blast
qed

text \<open>
  Three services, the second failing and the third never returning, run in reverse order
  with a registration in between.
\<close>

theorem shutdown_calls_each_snapshot_service_once_witness:
  "length (services threeServices) = 3 \<and>
   set (invoked (shutdown [RunGoroutine 2, ConcurrentRegister lateService, RunGoroutine 1,
                           RunGoroutine 0] threeServices)) =
     {(0, cleanService), (1, failingService), (2, hangingService)} \<and>
   distinct (map fst (invoked (shutdown [RunGoroutine 2, ConcurrentRegister lateService,
                           RunGoroutine 1, RunGoroutine 0] threeServices))) \<and>
   Shutdown failingService = ReturnsError ''busy'' \<and>
   ErrorShuttingDown ''WhisperServer'' ''busy'' \<in>
     set (shutdownLog (shutdown [RunGoroutine 2, ConcurrentRegister lateService, RunGoroutine 1,
                           RunGoroutine 0] threeServices)) \<and>
   services (registry (shutdown [RunGoroutine 2, ConcurrentRegister lateService, RunGoroutine 1,
                           RunGoroutine 0] threeServices)) =
     [cleanService, failingService, hangingService, lateService]"
proof -
  let ?sched = "[RunGoroutine 2, ConcurrentRegister lateService, RunGoroutine 1, RunGoroutine 0]"
  note t = shutdown_calls_each_snapshot_service_once [of ?sched threeServices]
  have fair: "\<forall>i < length (services threeServices). RunGoroutine i \<in> set ?sched"
    by (auto simp: threeServices_services less_Suc_eq numeral_3_eq_3)
  have enum: "set (enumerate 0 (services threeServices)) =
      {(0, cleanService), (1, failingService), (2, hangingService)}"
    by (simp add: threeServices_services numeral_2_eq_2)
  have inv: "set (invoked (shutdown ?sched threeServices)) =
      {(0, cleanService), (1, failingService), (2, hangingService)}"
    using t fair enum by simp
  have f: "Shutdown failingService = ReturnsError ''busy''" "Name failingService = ''WhisperServer''"
    by (simp_all add: failingService_def)
  have "(1, failingService) \<in> set (invoked (shutdown ?sched threeServices))"
    unfolding inv by simp
  then have lg: "ErrorShuttingDown ''WhisperServer'' ''busy'' \<in>
     set (shutdownLog (shutdown ?sched threeServices))"
    using t f by fastforce
  have reg: "services (registry (shutdown ?sched threeServices)) =
     [cleanService, failingService, hangingService, lateService]"
    using t by (simp add: threeServices_services registeredDuring_def)
  have n: "length (services threeServices) = 3"
    by (simp add: threeServices_services)
  show ?thesis
    using t n inv f(1) lg reg by blast
qed

subsection \<open>The status reporter\<close>

text \<open>
  Claim C10. On a status service fresh from its constructor the first \<^verbatim>\<open>Shutdown\<close>
  closes the \<^verbatim>\<open>done\<close> channel and returns \<^verbatim>\<open>nil\<close>; the second closes a closed
  channel and panics. The second \<^verbatim>\<open>Cleanup\<close> of the audio capture service and of the
  transcription backend returns \<^verbatim>\<open>nil\<close>.
\<close>

theorem status_shutdown_twice_panics:
  "StatusService_Shutdown NewStatusServiceWithWriter =
     Inr (NewStatusServiceWithWriter\<lparr>doneClosed := True\<rparr>, None) \<and>
   StatusService_Shutdown (NewStatusServiceWithWriter\<lparr>doneClosed := True\<rparr>) =
     Inl CloseOfClosedChannel \<and>
   snd (snd (SpeechService_Cleanup (fst (SpeechService_Cleanup x)))) = None \<and>
   snd (snd (WhisperServerService_Cleanup (fst (WhisperServerService_Cleanup b)))) = None"
  by (simp add: StatusService_Shutdown_def NewStatusServiceWithWriter_def closeChan_def
      SpeechService_Cleanup_nil WhisperServerService_Cleanup_nil)

section \<open>Properties of the WAVE container\<close>

lemma le16_roundtrip:
  "(ucast (ucast v :: byte) :: int16) OR push_bit 8 (ucast (ucast (drop_bit 8 v) :: byte)) = v"
  for v :: int16
  by (rule bit_word_eqI) (auto simp: bit_simps)

lemma chunkSamples_encode: "chunkSamples (encodeSamples xs) = xs"
  by (induction xs) (simp_all add: encodeSamples_def le16_def le16_roundtrip)

lemma length_encodeSamples: "length (encodeSamples xs) = 2 * length xs"
  by (induction xs) (simp_all add: encodeSamples_def le16_def)

lemma take_encodeSamples: "take (2 * n) (encodeSamples xs) = encodeSamples (take n xs)"
proof (induction xs arbitrary: n)
  case Nil
  then show ?case by (simp add: encodeSamples_def)
next
  case (Cons x xs)
  show ?case
  proof (cases n)
    case 0
    then show ?thesis by (simp add: encodeSamples_def)
  next
    case (Suc m)
    then show ?thesis
      using Cons [of m] by (simp add: encodeSamples_def le16_def)
  qed
qed

lemma drop_encodeSamples: "drop (2 * n) (encodeSamples xs) = encodeSamples (drop n xs)"
proof (induction xs arbitrary: n)
  case Nil
  then show ?case by (simp add: encodeSamples_def)
next
  case (Cons x xs)
  show ?case
  proof (cases n)
    case 0
    then show ?thesis by (simp add: encodeSamples_def)
  next
    case (Suc m)
    then show ?thesis
      using Cons [of m] by (simp add: encodeSamples_def le16_def)
  qed
qed

declare readChunks.simps [simp del]

lemma readChunks_encode: "readChunks (encodeSamples xs) = xs"
proof (induction "length xs" arbitrary: xs rule: less_induct)
  case less
  show ?case
  proof (cases "xs = []")
    case True
    then show ?thesis
      by (subst readChunks.simps) (simp add: encodeSamples_def)
  next
    case False
    then have ne: "encodeSamples xs \<noteq> []"
      using length_encodeSamples [of xs] by auto
    have t: "take 1024 (encodeSamples xs) = encodeSamples (take 512 xs)"
      using take_encodeSamples [of 512 xs] by simp
    have d: "drop 1024 (encodeSamples xs) = encodeSamples (drop 512 xs)"
      using drop_encodeSamples [of 512 xs] by simp
    have "length (drop 512 xs) < length xs"
      using False by simp
    then have ih: "readChunks (encodeSamples (drop 512 xs)) = drop 512 xs"
      by (rule less)
    show ?thesis
      using ne by (subst readChunks.simps) (simp add: t d ih chunkSamples_encode)
  qed
qed

lemma length_encodeHeader: "length (encodeHeader (makeWavHeader samples sampleRate)) = 44"
  by (simp add: encodeHeader_def makeWavHeader_def Let_def le16_def le32_def)

text \<open>
  Claim C9, as the writers and the reader behave. For every sample sequence and every
  sample rate, writing the utterance with \<^verbatim>\<open>writeWavFile\<close> or \<^verbatim>\<open>saveWavFile\<close> and
  reading the file back with \<^verbatim>\<open>readWavFile\<close> gives the identical sample sequence. The
  sample rate read back is always 16000: the reader skips the header and assumes it. So
  the rate comes back unchanged exactly when it was 16000.
\<close>

theorem wav_round_trip_keeps_samples_assumes_16kHz:
  "roundTrip filename samples sampleRate = Inr \<lparr>Samples = samples, SampleRate = 16000\<rparr> \<and>
   roundTripTemp tmp samples sampleRate = Inr \<lparr>Samples = samples, SampleRate = 16000\<rparr>"
  by (simp add: roundTrip_def roundTripTemp_def writeWavFile_def saveWavFile_def readWavFile_def
      length_encodeHeader readChunks_encode)

text \<open>
  Claim C9 as stated fails for an utterance recorded at 44100 Hz: what is read back does
  not carry the original sample rate.
\<close>

theorem wav_round_trip_loses_sample_rate:
  "roundTrip ''recording_1.wav'' [7] 44100 \<noteq> Inr \<lparr>Samples = [7], SampleRate = 44100\<rparr>"
  by (simp add: roundTrip_def writeWavFile_def readWavFile_def
      length_encodeHeader readChunks_encode)

end
